theory Spec2Isabelle
  imports Main "HOL-Library.Word" "HOL-Library.Sublist"
begin

unbundle bit_operations_syntax

section \<open>USB host mass storage: a model of \<^verbatim>\<open>adafruit_usb_host_mass_storage.py\<close>\<close>

text \<open>
  The driver speaks the Bulk-Only Transport over a \<^verbatim>\<open>usb.core.Device\<close>. The device is
  not part of the driver: it is modelled by the outcomes it gives to the transfers the
  driver issues, one outcome per transfer, and by the log of those transfers. The
  driver object (\<^verbatim>\<open>self\<close>) is a record that every method takes and returns.
  Every \<^verbatim>\<open>raise\<close> of the source and of the library calls it makes is a value of
  \<open>error\<close>.
\<close>

subsection \<open>Bytes and errors\<close>

type_synonym byte = "8 word"
type_synonym bytes = "byte list"

text \<open>
  Every failed transfer raises \<^verbatim>\<open>usb.core.USBError\<close> (a timeout raises its subclass
  \<^verbatim>\<open>USBTimeoutError\<close>); the cause is kept so that a stall can be told from the rest.
\<close>

datatype usb_failure = Stall | Timeout | Failed

datatype error =
    USBError usb_failure
  | ValueError_No_MSC_interface_found
  | RuntimeError_Out_of_tries
  | IndexError
  | TypeError
  | ValueError_byte_range
  | struct_error

subsection \<open>The module's constants\<close>

definition DIR_OUT :: byte where "DIR_OUT = 0x00"
definition DIR_IN :: byte where "DIR_IN = 0x80"
definition REQ_RCPT_INTERFACE :: byte where "REQ_RCPT_INTERFACE = 1"
definition REQ_TYPE_CLASS :: byte where "REQ_TYPE_CLASS = 0x20"
definition MSC_REQ_GET_GET_MAX_LUN :: byte where "MSC_REQ_GET_GET_MAX_LUN = 254"
definition SCSI_CMD_TEST_UNIT_READY :: byte where "SCSI_CMD_TEST_UNIT_READY = 0x00"
definition SCSI_CMD_INQUIRY :: byte where "SCSI_CMD_INQUIRY = 0x12"
definition SCSI_CMD_READ_CAPACITY_10 :: byte where "SCSI_CMD_READ_CAPACITY_10 = 0x25"
definition SCSI_CMD_REQUEST_SENSE :: byte where "SCSI_CMD_REQUEST_SENSE = 0x03"
definition SCSI_CMD_READ_10 :: byte where "SCSI_CMD_READ_10 = 0x28"
definition SCSI_CMD_WRITE_10 :: byte where "SCSI_CMD_WRITE_10 = 0x2A"

text \<open>
  The descriptor type codes are constants of the imported module
  \<^verbatim>\<open>adafruit_usb_host_descriptors\<close>; they are the codes of the USB specification.
\<close>

definition DESC_CONFIGURATION :: byte where "DESC_CONFIGURATION = 0x02"
definition DESC_INTERFACE :: byte where "DESC_INTERFACE = 0x04"
definition DESC_ENDPOINT :: byte where "DESC_ENDPOINT = 0x05"

subsection \<open>The device\<close>

datatype outcome = Done bytes | Fail usb_failure

datatype xfer =
    SetConfiguration byte
  | CtrlTransfer byte byte nat byte nat
  | BulkWrite byte bytes
  | BulkRead byte nat

text \<open>
  \<open>script d k\<close> is the outcome of the \<open>k\<close>-th transfer issued to the device (counted
  from 0): the bytes it sends back, or the failure. \<open>log d\<close> is the list of the
  transfers issued so far, a failed one included.
\<close>

record device =
  script :: "nat \<Rightarrow> outcome"
  log :: "xfer list"

definition transfer :: "xfer \<Rightarrow> device \<Rightarrow> outcome \<times> device" where
  "transfer x d = (script d (length (log d)), d\<lparr>log := log d @ [x]\<rparr>)"

text \<open>
  A read overwrites the front of the caller's buffer with what the device sent, and never
  more than the buffer holds.
\<close>

definition fill :: "bytes \<Rightarrow> bytes \<Rightarrow> bytes" where
  "fill buf bs = take (length buf) bs @ drop (length bs) buf"

definition set_configuration :: "byte \<Rightarrow> device \<Rightarrow> (error + unit) \<times> device" where
  "set_configuration v d =
     (case transfer (SetConfiguration v) d of
        (Fail k, d') \<Rightarrow> (Inl (USBError k), d')
      | (Done bs, d') \<Rightarrow> (Inr (), d'))"

definition ctrl_transfer ::
  "byte \<Rightarrow> byte \<Rightarrow> nat \<Rightarrow> byte \<Rightarrow> bytes \<Rightarrow> device \<Rightarrow> (error + bytes) \<times> device" where
  "ctrl_transfer bmRequestType bRequest wValue wIndex buf d =
     (case transfer (CtrlTransfer bmRequestType bRequest wValue wIndex (length buf)) d of
        (Fail k, d') \<Rightarrow> (Inl (USBError k), d')
      | (Done bs, d') \<Rightarrow> (Inr (fill buf bs), d'))"

definition dev_write :: "byte \<Rightarrow> bytes \<Rightarrow> device \<Rightarrow> (error + unit) \<times> device" where
  "dev_write ep bs d =
     (case transfer (BulkWrite ep bs) d of
        (Fail k, d') \<Rightarrow> (Inl (USBError k), d')
      | (Done r, d') \<Rightarrow> (Inr (), d'))"

definition dev_read :: "byte \<Rightarrow> bytes \<Rightarrow> device \<Rightarrow> (error + bytes) \<times> device" where
  "dev_read ep buf d =
     (case transfer (BulkRead ep (length buf)) d of
        (Fail k, d') \<Rightarrow> (Inl (USBError k), d')
      | (Done bs, d') \<Rightarrow> (Inr (fill buf bs), d'))"

subsection \<open>The \<^verbatim>\<open>struct\<close> formats the driver uses\<close>

definition le32 :: "int \<Rightarrow> bytes" where
  "le32 n = [of_int (n mod 256), of_int (n div 2 ^ 8 mod 256), of_int (n div 2 ^ 16 mod 256),
              of_int (n div 2 ^ 24 mod 256)]"

definition be32 :: "int \<Rightarrow> bytes" where
  "be32 n = [of_int (n div 2 ^ 24 mod 256), of_int (n div 2 ^ 16 mod 256),
              of_int (n div 2 ^ 8 mod 256), of_int (n mod 256)]"

definition be16 :: "int \<Rightarrow> bytes" where
  "be16 n = [of_int (n div 2 ^ 8 mod 256), of_int (n mod 256)]"

definition be_int :: "bytes \<Rightarrow> int" where
  "be_int bs = foldl (\<lambda>a b. a * 256 + uint b) 0 bs"

text \<open>
  \<^verbatim>\<open>struct.pack_into("<IBxB", buf, 8, n, direction, m)\<close>: seven bytes from offset 8, the
  pad byte written as zero. A buffer that is too short is refused before anything is
  written. Otherwise the seven bytes are zeroed and the fields written in order, so a value
  that does not fit its field raises with the fields before it written and the rest zero.
  The result is the error or \<open>()\<close>, with the buffer as the call leaves it.
\<close>

definition pack_into_IBxB :: "bytes \<Rightarrow> int \<Rightarrow> byte \<Rightarrow> int \<Rightarrow> (error + unit) \<times> bytes" where
  "pack_into_IBxB buf n direction m =
     (if length buf < 15 then (Inl struct_error, buf)
      else if n < 0 \<or> 2 ^ 32 \<le> n
        then (Inl struct_error, take 8 buf @ [0, 0, 0, 0, 0, 0, 0] @ drop 15 buf)
      else if m < 0 \<or> 256 \<le> m
        then (Inl struct_error, take 8 buf @ le32 n @ [direction, 0, 0] @ drop 15 buf)
      else (Inr (), take 8 buf @ le32 n @ [direction, 0, of_int m] @ drop 15 buf))"

text \<open>
  \<^verbatim>\<open>struct.pack_into(">BBIxH", command, 0, opcode, lun, block_num, count)\<close> into a fresh
  \<^verbatim>\<open>bytearray(10)\<close>: nine bytes are written, the tenth stays zero.
\<close>

definition pack_into_BBIxH :: "byte \<Rightarrow> int \<Rightarrow> int \<Rightarrow> int \<Rightarrow> error + bytes" where
  "pack_into_BBIxH opcode l block_num n =
     (if l < 0 \<or> 256 \<le> l \<or> block_num < 0 \<or> 2 ^ 32 \<le> block_num \<or> n < 0 \<or> 2 ^ 16 \<le> n
      then Inl struct_error
      else Inr ([opcode, of_int l] @ be32 block_num @ [0] @ be16 n @ [0]))"

text \<open>\<^verbatim>\<open>struct.unpack(">II", response)\<close>: the buffer must hold exactly eight bytes.\<close>

definition unpack_II :: "bytes \<Rightarrow> error + int \<times> int" where
  "unpack_II r =
     (if length r = 8 then Inr (be_int (take 4 r), be_int (drop 4 r)) else Inl struct_error)"

subsection \<open>The driver object\<close>

record session =
  in_ep :: byte
  out_ep :: byte
  sector_count :: "int option"
  block_size :: "int option"
  lun :: int
  cbw :: bytes
  csw :: bytes

subsection \<open>Scanning the configuration descriptor\<close>

text \<open>The locals of the scanning loop of \<^verbatim>\<open>__init__\<close>, with the two endpoint fields.\<close>

record scan_state =
  config_value :: byte
  in_msc_interface :: bool
  msc_interface :: "byte option"
  scan_in_ep :: byte
  scan_out_ep :: byte

definition scan_init :: scan_state where
  "scan_init = \<lparr>config_value = 0, in_msc_interface = False, msc_interface = None,
     scan_in_ep = 0, scan_out_ep = 0\<rparr>"

text \<open>Reading \<^verbatim>\<open>config_descriptor[j]\<close>: an index past the end raises.\<close>

definition getitem :: "bytes \<Rightarrow> nat \<Rightarrow> error + byte" where
  "getitem xs j = (if j < length xs then Inr (xs ! j) else Inl IndexError)"

text \<open>
  One pass through the body of the loop for the record at offset \<open>i\<close>, up to the last
  statement \<^verbatim>\<open>i += descriptor_len\<close>.
\<close>

definition scan_record :: "bytes \<Rightarrow> nat \<Rightarrow> scan_state \<Rightarrow> error + scan_state" where
  "scan_record cd i st =
     (case getitem cd (i + 1) of Inl e \<Rightarrow> Inl e
      | Inr descriptor_type \<Rightarrow>
        if descriptor_type = DESC_CONFIGURATION then
          (case getitem cd (i + 5) of Inl e \<Rightarrow> Inl e
           | Inr v \<Rightarrow> Inr (st\<lparr>config_value := v\<rparr>))
        else if descriptor_type = DESC_INTERFACE then
          (case getitem cd (i + 2) of Inl e \<Rightarrow> Inl e
           | Inr interface_number \<Rightarrow>
             (case getitem cd (i + 5) of Inl e \<Rightarrow> Inl e
              | Inr interface_class \<Rightarrow>
                (case getitem cd (i + 6) of Inl e \<Rightarrow> Inl e
                 | Inr interface_subclass \<Rightarrow>
                   if interface_class = 8 \<and> interface_subclass = 6
                   then Inr (st\<lparr>in_msc_interface := True,
                                 msc_interface := Some interface_number\<rparr>)
                   else Inr (st\<lparr>in_msc_interface := False\<rparr>))))
        else if descriptor_type = DESC_ENDPOINT \<and> in_msc_interface st then
          (case getitem cd (i + 2) of Inl e \<Rightarrow> Inl e
           | Inr endpoint_address \<Rightarrow>
             if endpoint_address AND DIR_IN \<noteq> 0
             then Inr (st\<lparr>scan_in_ep := endpoint_address\<rparr>)
             else Inr (st\<lparr>scan_out_ep := endpoint_address\<rparr>))
        else Inr st)"

text \<open>
  The \<^verbatim>\<open>while i < len(config_descriptor)\<close> loop. A record whose length byte is zero
  keeps \<open>i\<close> where it is and the loop never leaves: the result is then \<open>None\<close>.
\<close>

partial_function (option) scan_loop ::
  "bytes \<Rightarrow> nat \<Rightarrow> scan_state \<Rightarrow> (error + scan_state) option" where
  "scan_loop cd i st =
     (if i < length cd then
        (case scan_record cd i st of
           Inl e \<Rightarrow> Some (Inl e)
         | Inr st' \<Rightarrow> scan_loop cd (i + unat (cd ! i)) st')
      else Some (Inr st))"

declare scan_loop.simps [code]

subsection \<open>The Bulk-Only Transport: \<^verbatim>\<open>_scsi_command\<close>\<close>

text \<open>
  The data phase of \<^verbatim>\<open>_scsi_command\<close>: nothing for an empty buffer, a read into the
  buffer for \<^verbatim>\<open>_DIR_IN\<close>, a write of the buffer otherwise.
\<close>

definition data_phase ::
  "byte \<Rightarrow> bytes \<Rightarrow> session \<Rightarrow> device \<Rightarrow> (error + unit) \<times> bytes \<times> device" where
  "data_phase direction data s d =
     (if data \<noteq> [] then
        (if direction = DIR_IN then
           (case dev_read (in_ep s) data d of
              (Inl e, d') \<Rightarrow> (Inl e, data, d')
            | (Inr data', d') \<Rightarrow> (Inr (), data', d'))
         else
           (case dev_write (out_ep s) data d of
              (Inl e, d') \<Rightarrow> (Inl e, data, d')
            | (Inr u, d') \<Rightarrow> (Inr (), data, d')))
      else (Inr (), data, d))"

text \<open>
  \<^verbatim>\<open>_scsi_command(direction, command, data)\<close> returns nothing; the model returns the
  error or \<open>()\<close>, the caller's data buffer as the call leaves it, the object and the device.
  When \<^verbatim>\<open>pack_into\<close> raises, the object keeps what the call has written into its buffer.
  The slice assignment \<^verbatim>\<open>self.cbw[15 : 15 + len(command)] = command\<close> replaces what is
  there of that range by the command, so a command longer than 16 bytes makes the buffer grow.
\<close>

definition scsi_command ::
  "byte \<Rightarrow> bytes \<Rightarrow> bytes \<Rightarrow> session \<Rightarrow> device
     \<Rightarrow> (error + unit) \<times> bytes \<times> session \<times> device" where
  "scsi_command direction command data s d =
     (case pack_into_IBxB (cbw s) (int (length data)) direction (int (length command)) of
        (Inl e, c) \<Rightarrow> (Inl e, data, s\<lparr>cbw := c\<rparr>, d)
      | (Inr u, c) \<Rightarrow>
        let s1 = s\<lparr>cbw := take 15 c @ command @ drop (15 + length command) c\<rparr> in
        (case dev_write (out_ep s1) (cbw s1) d of
           (Inl e, d1) \<Rightarrow> (Inl e, data, s1, d1)
         | (Inr u, d1) \<Rightarrow>
           (case data_phase direction data s1 d1 of
              (Inl e, data', d2) \<Rightarrow> (Inl e, data', s1, d2)
            | (Inr u, data', d2) \<Rightarrow>
              (case dev_read (in_ep s1) (csw s1) d2 of
                 (Inl e, d3) \<Rightarrow> (Inl e, data', s1, d3)
               | (Inr c', d3) \<Rightarrow> (Inr (), data', s1\<lparr>csw := c'\<rparr>, d3)))))"

subsection \<open>Waiting for the unit: \<^verbatim>\<open>_wait_for_ready\<close>\<close>

text \<open>
  The \<^verbatim>\<open>while self.csw[status] != 0 and try_num < tries\<close> loop; the sleep of a tenth of a
  second has no effect on the values and is left out.
\<close>

function wait_loop ::
  "int \<Rightarrow> int \<Rightarrow> bytes \<Rightarrow> bytes \<Rightarrow> bytes \<Rightarrow> session \<Rightarrow> device
     \<Rightarrow> (error + unit) \<times> session \<times> device" where
  "wait_loop tries try_num test_ready sense sense_response s d =
     (if csw s ! 12 \<noteq> 0 \<and> try_num < tries then
        (case scsi_command DIR_IN sense sense_response s d of
           (Inl e, r, s1, d1) \<Rightarrow> (Inl e, s1, d1)
         | (Inr u, r, s1, d1) \<Rightarrow>
           (case scsi_command DIR_OUT test_ready [] s1 d1 of
              (Inl e, b, s2, d2) \<Rightarrow> (Inl e, s2, d2)
            | (Inr u, b, s2, d2) \<Rightarrow>
                wait_loop tries (try_num + 1) test_ready sense r s2 d2))
      else (Inr (), s, d))"
  by pat_completeness auto
termination
  by (relation "measure (\<lambda>(tries, try_num, t, sn, r, s, d). nat (tries - try_num))") auto

definition test_ready_command :: "int \<Rightarrow> bytes" where
  "test_ready_command l = (replicate 6 0)[0 := SCSI_CMD_TEST_UNIT_READY, 1 := of_int l]"

definition sense_command :: bytes where
  "sense_command = (replicate 6 0)[0 := SCSI_CMD_REQUEST_SENSE, 4 := 18]"

text \<open>
  The two stores into byte arrays can raise: \<^verbatim>\<open>self.csw[12] = 1\<close> on a status buffer that
  is too short, \<^verbatim>\<open>test_ready[1] = self.lun\<close> on a LUN that is not a byte.
\<close>

definition wait_for_ready :: "int \<Rightarrow> session \<Rightarrow> device \<Rightarrow> (error + unit) \<times> session \<times> device" where
  "wait_for_ready tries s d =
     (if length (csw s) \<le> 12 then (Inl IndexError, s, d)
      else
        let s0 = s\<lparr>csw := (csw s)[12 := 1]\<rparr> in
        if lun s0 < 0 \<or> 256 \<le> lun s0 then (Inl ValueError_byte_range, s0, d)
        else
          (case scsi_command DIR_OUT (test_ready_command (lun s0)) [] s0 d of
             (Inl e, b, s1, d1) \<Rightarrow> (Inl e, s1, d1)
           | (Inr u, b, s1, d1) \<Rightarrow>
             (case wait_loop tries 0 (test_ready_command (lun s0)) sense_command
                     (replicate 18 0) s1 d1 of
                (Inl e, s2, d2) \<Rightarrow> (Inl e, s2, d2)
              | (Inr u, s2, d2) \<Rightarrow>
                if csw s2 ! 12 \<noteq> 0 then (Inl RuntimeError_Out_of_tries, s2, d2)
                else (Inr (), s2, d2))))"

subsection \<open>Inquiry, capacity, blocks\<close>

definition inquiry_command :: bytes where
  "inquiry_command = (replicate 6 0)[0 := SCSI_CMD_INQUIRY, 4 := 36]"

definition inquire :: "session \<Rightarrow> device \<Rightarrow> (error + unit) \<times> session \<times> device" where
  "inquire s d =
     (case scsi_command DIR_IN inquiry_command (replicate 36 0) s d of
        (r, response, s', d') \<Rightarrow> (r, s', d'))"

definition read_capacity_command :: bytes where
  "read_capacity_command = (replicate 10 0)[0 := SCSI_CMD_READ_CAPACITY_10]"

definition read_capacity :: "session \<Rightarrow> device \<Rightarrow> (error + unit) \<times> session \<times> device" where
  "read_capacity s d =
     (case scsi_command DIR_IN read_capacity_command (replicate 8 0) s d of
        (Inl e, response, s', d') \<Rightarrow> (Inl e, s', d')
      | (Inr u, response, s', d') \<Rightarrow>
        (case unpack_II response of
           Inl e \<Rightarrow> (Inl e, s', d')
         | Inr (last_lba, bsize) \<Rightarrow>
             (Inr (), s'\<lparr>sector_count := Some (last_lba + 1), block_size := Some bsize\<rparr>, d')))"

definition readblocks ::
  "int \<Rightarrow> bytes \<Rightarrow> session \<Rightarrow> device \<Rightarrow> (error + unit) \<times> bytes \<times> session \<times> device" where
  "readblocks block_num buf s d =
     (case pack_into_BBIxH SCSI_CMD_READ_10 (lun s) block_num (int (length buf) div 512) of
        Inl e \<Rightarrow> (Inl e, buf, s, d)
      | Inr command \<Rightarrow> scsi_command DIR_IN command buf s d)"

definition writeblocks ::
  "int \<Rightarrow> bytes \<Rightarrow> session \<Rightarrow> device \<Rightarrow> (error + unit) \<times> bytes \<times> session \<times> device" where
  "writeblocks block_num buf s d =
     (case pack_into_BBIxH SCSI_CMD_WRITE_10 (lun s) block_num (int (length buf) div 512) of
        Inl e \<Rightarrow> (Inl e, buf, s, d)
      | Inr command \<Rightarrow> scsi_command DIR_OUT command buf s d)"



subsection \<open>Construction: \<^verbatim>\<open>__init__\<close>\<close>

text \<open>
  The request for the highest LUN, with its handler: any \<^verbatim>\<open>usb.core.USBError\<close> gives 0,
  a completed request gives the answered byte plus one.
\<close>

definition get_max_lun :: "byte \<Rightarrow> device \<Rightarrow> (error + int) \<times> device" where
  "get_max_lun index d =
     (case ctrl_transfer (REQ_RCPT_INTERFACE OR REQ_TYPE_CLASS OR DIR_IN)
             MSC_REQ_GET_GET_MAX_LUN 0 index (replicate 1 0) d of
        (Inl (USBError k), d') \<Rightarrow> (Inr 0, d')
      | (Inl e, d') \<Rightarrow> (Inl e, d')
      | (Inr max_lun, d') \<Rightarrow> (Inr (uint (max_lun ! 0) + 1), d'))"

definition cbw_template :: bytes where
  "cbw_template = [0x55, 0x53, 0x42, 0x43] @ drop 4 (replicate 31 0)"

definition csw_template :: bytes where
  "csw_template = [0x55, 0x53, 0x42, 0x53] @ drop 4 (replicate 13 0)"

text \<open>
  The fields of the object when \<^verbatim>\<open>__init__\<close> reaches \<^verbatim>\<open>self._inquire()\<close>: the endpoints
  the scan found, no capacity yet, the LUN, and the two buffers with their signatures, the
  LUN stored at index 14 of the CBW buffer.
\<close>

definition new_session :: "scan_state \<Rightarrow> int \<Rightarrow> session" where
  "new_session st lun0 =
     \<lparr>in_ep = scan_in_ep st, out_ep = scan_out_ep st, sector_count = None,
      block_size = None, lun = lun0, cbw = cbw_template[14 := of_int lun0],
      csw = csw_template\<rparr>"

text \<open>
  \<^verbatim>\<open>__init__\<close> from \<^verbatim>\<open>self.lun = lun\<close> on, for the values the scan has found. Passing
  \<^verbatim>\<open>None\<close> as the index of the control transfer is a type error.
\<close>

definition init_session :: "scan_state \<Rightarrow> int \<Rightarrow> device \<Rightarrow> (error + session) \<times> device" where
  "init_session st lun0 d =
     (case set_configuration (config_value st) d of
        (Inl e, d1) \<Rightarrow> (Inl e, d1)
      | (Inr u, d1) \<Rightarrow>
        (case msc_interface st of
           None \<Rightarrow> (Inl TypeError, d1)
         | Some index \<Rightarrow>
           (case get_max_lun index d1 of
              (Inl e, d2) \<Rightarrow> (Inl e, d2)
            | (Inr max_lun, d2) \<Rightarrow>
              if lun0 < 0 \<or> 256 \<le> lun0 then (Inl ValueError_byte_range, d2)
              else
                (case inquire (new_session st lun0) d2 of
                   (Inl e, s3, d3) \<Rightarrow> (Inl e, d3)
                 | (Inr u, s3, d3) \<Rightarrow>
                   (case wait_for_ready 100 s3 d3 of
                      (Inl e, s4, d4) \<Rightarrow> (Inl e, d4)
                    | (Inr u, s4, d4) \<Rightarrow> (Inr s4, d4))))))"

text \<open>
  \<^verbatim>\<open>USBMassStorage(device, lun)\<close>, given the configuration descriptor that
  \<^verbatim>\<open>get_configuration_descriptor(device, 0)\<close> returned. \<open>None\<close>: the scan never ends.
\<close>

definition construct ::
  "bytes \<Rightarrow> int \<Rightarrow> device \<Rightarrow> ((error + session) \<times> device) option" where
  "construct config_descriptor lun0 d =
     (case scan_loop config_descriptor 0 scan_init of
        None \<Rightarrow> None
      | Some (Inl e) \<Rightarrow> Some (Inl e, d)
      | Some (Inr st) \<Rightarrow>
          if scan_in_ep st = 0 \<or> scan_out_ep st = 0
          then Some (Inl ValueError_No_MSC_interface_found, d)
          else Some (init_session st lun0 d))"

subsection \<open>What a command puts on the bus\<close>

text \<open>
  The CBW that \<^verbatim>\<open>_scsi_command\<close> sends, in terms of the buffer \<open>old\<close> it overwrites: the
  first eight bytes are kept, then come the data length, the direction, a zero byte, the
  command length and the command, and what was behind the command stays.
\<close>

definition cbw_wire :: "bytes \<Rightarrow> byte \<Rightarrow> bytes \<Rightarrow> nat \<Rightarrow> bytes" where
  "cbw_wire old direction command n =
     take 8 old @ le32 (int n) @ [direction, 0, of_nat (length command)] @ command
       @ drop (15 + length command) old"

text \<open>
  The CBW buffer after a \<^verbatim>\<open>_scsi_command\<close> whose \<^verbatim>\<open>pack_into\<close> has raised: untouched when
  it is too short, zero in bytes 8 to 14 when the data length does not fit, and with the
  data length and the direction written when the command length does not fit.
\<close>

definition cbw_refused :: "bytes \<Rightarrow> byte \<Rightarrow> nat \<Rightarrow> bytes" where
  "cbw_refused old direction n =
     (if length old < 15 then old
      else if 2 ^ 32 \<le> n then take 8 old @ [0, 0, 0, 0, 0, 0, 0] @ drop 15 old
      else take 8 old @ le32 (int n) @ [direction, 0, 0] @ drop 15 old)"

text \<open>The transfers of one complete command: the CBW, the data phase if any, the CSW.\<close>

definition command_transfers :: "byte \<Rightarrow> bytes \<Rightarrow> bytes \<Rightarrow> session \<Rightarrow> xfer list" where
  "command_transfers direction command data s =
     [BulkWrite (out_ep s) (cbw_wire (cbw s) direction command (length data))]
     @ (if data = [] then []
        else if direction = DIR_IN then [BulkRead (in_ep s) (length data)]
        else [BulkWrite (out_ep s) data])
     @ [BulkRead (in_ep s) (length (csw s))]"


text \<open>
  The status byte of the CSW that the device sends as its \<open>j\<close>-th outcome, when that
  outcome is a whole CSW of thirteen bytes.
\<close>

definition csw_status :: "device \<Rightarrow> nat \<Rightarrow> byte option" where
  "csw_status d j =
     (case script d j of
        Done c \<Rightarrow> if 13 \<le> length c then Some (c ! 12) else None
      | Fail k \<Rightarrow> None)"

text \<open>
  The transfers of a Test-Unit-Ready, of a Request-Sense with its 18-byte buffer and of an
  Inquiry with its 36-byte buffer.
\<close>

definition test_ready_transfers :: "session \<Rightarrow> xfer list" where
  "test_ready_transfers s = command_transfers DIR_OUT (test_ready_command (lun s)) [] s"

definition sense_transfers :: "session \<Rightarrow> xfer list" where
  "sense_transfers s = command_transfers DIR_IN sense_command (replicate 18 0) s"

text \<open>
  Two states of the driver object that put the same bytes on the bus for a six-byte command:
  they differ at most in the status buffer's content and in bytes 8 to 20 of the CBW buffer.
\<close>

definition same_frame :: "session \<Rightarrow> session \<Rightarrow> bool" where
  "same_frame s s' \<longleftrightarrow>
     in_ep s' = in_ep s \<and> out_ep s' = out_ep s \<and> lun s' = lun s
     \<and> sector_count s' = sector_count s \<and> block_size s' = block_size s
     \<and> length (csw s') = length (csw s) \<and> length (cbw s') = length (cbw s)
     \<and> take 8 (cbw s') = take 8 (cbw s) \<and> drop 21 (cbw s') = drop 21 (cbw s)"

definition inquiry_transfers :: "session \<Rightarrow> xfer list" where
  "inquiry_transfers s = command_transfers DIR_IN inquiry_command (replicate 36 0) s"

subsection \<open>Relations between runs\<close>

text \<open>
  Two devices in the same position: the same transfers issued so far, and the same outcomes
  for every transfer still to come.
\<close>

definition same_from :: "device \<Rightarrow> device \<Rightarrow> bool" where
  "same_from d e \<longleftrightarrow> log d = log e \<and> (\<forall>j. length (log d) \<le> j \<longrightarrow> script d j = script e j)"

text \<open>
  Two devices that fail the same transfers in the same way, whatever bytes they send when a
  transfer completes.
\<close>

definition same_failures :: "device \<Rightarrow> device \<Rightarrow> bool" where
  "same_failures d e \<longleftrightarrow>
     log d = log e \<and>
     (\<forall>j. case script d j of
            Fail k \<Rightarrow> script e j = Fail k
          | Done bs \<Rightarrow> (\<exists>bs'. script e j = Done bs'))"

text \<open>
  Two devices that fail the same transfers in the same way and send the same bytes in
  every transfer but the \<open>k\<close>-th; the position of the CSW of a command issued now with
  the data buffer \<open>data\<close> (after the CBW, and after the data phase if there is one); and a
  driver object with its status buffer blanked, to compare two objects in all their other
  fields.
\<close>

definition same_but_at :: "nat \<Rightarrow> device \<Rightarrow> device \<Rightarrow> bool" where
  "same_but_at k d e \<longleftrightarrow> same_failures d e \<and> (\<forall>j. j \<noteq> k \<longrightarrow> script e j = script d j)"

definition csw_position :: "bytes \<Rightarrow> device \<Rightarrow> nat" where
  "csw_position data d = length (log d) + (if data = [] then 1 else 2)"

definition but_csw :: "session \<Rightarrow> session" where
  "but_csw s = s\<lparr>csw := []\<rparr>"

text \<open>
  A run from device state \<open>d\<close> to \<open>d'\<close> with result \<open>r\<close> lets transport failures through,
  apart from the transfers numbered in \<open>X\<close>: the log only grows, a failed transfer is
  the last one issued and \<open>r\<close> is its error, and \<open>r\<close> is a transport error only in that
  way.
\<close>

definition faithful :: "nat set \<Rightarrow> device \<Rightarrow> error + 'a \<Rightarrow> device \<Rightarrow> bool" where
  "faithful X d r d' \<longleftrightarrow>
     script d' = script d \<and> prefix (log d) (log d') \<and>
     (\<forall>j k. length (log d) \<le> j \<and> j < length (log d') \<and> j \<notin> X \<and> script d j = Fail k
        \<longrightarrow> r = Inl (USBError k) \<and> Suc j = length (log d')) \<and>
     (\<forall>k. r = Inl (USBError k)
        \<longrightarrow> length (log d) < length (log d') \<and> length (log d') - 1 \<notin> X
            \<and> script d (length (log d') - 1) = Fail k)"

subsection \<open>The configuration descriptor as a sequence of records\<close>

text \<open>
  A descriptor is a sequence of records, each a length byte, a type byte and the fields of
  its type. A record is well formed when its length byte is its length and it is long
  enough for the fields that the scan reads from a record of its type.
\<close>

definition is_configuration :: "bytes \<Rightarrow> bool" where
  "is_configuration r \<longleftrightarrow> r ! 1 = DESC_CONFIGURATION"

definition is_interface :: "bytes \<Rightarrow> bool" where
  "is_interface r \<longleftrightarrow> r ! 1 = DESC_INTERFACE"

definition is_msc_interface :: "bytes \<Rightarrow> bool" where
  "is_msc_interface r \<longleftrightarrow> is_interface r \<and> r ! 5 = 8 \<and> r ! 6 = 6"

definition is_endpoint :: "bytes \<Rightarrow> bool" where
  "is_endpoint r \<longleftrightarrow> r ! 1 = DESC_ENDPOINT"

definition is_in_endpoint :: "bytes \<Rightarrow> bool" where
  "is_in_endpoint r \<longleftrightarrow> is_endpoint r \<and> r ! 2 AND 0x80 \<noteq> 0"

definition is_out_endpoint :: "bytes \<Rightarrow> bool" where
  "is_out_endpoint r \<longleftrightarrow> is_endpoint r \<and> r ! 2 AND 0x80 = 0"

definition wf_record :: "bytes \<Rightarrow> bool" where
  "wf_record r \<longleftrightarrow>
     2 \<le> length r \<and> length r < 256 \<and> r ! 0 = of_nat (length r)
     \<and> (is_configuration r \<longrightarrow> 6 \<le> length r)
     \<and> (is_interface r \<longrightarrow> 7 \<le> length r)
     \<and> (is_endpoint r \<longrightarrow> 3 \<le> length r)"

text \<open>
  The scanner as the specification words it, record by record: a configuration record
  gives the selector value; an interface record sets the flag "inside the Mass-Storage
  interface" to whether its class is 8 and its subclass 6, and gives the interface number
  when it is; an endpoint record counts only while the flag is set, and its direction bit
  says which endpoint it gives.
\<close>

definition spec_record :: "bytes \<Rightarrow> scan_state \<Rightarrow> scan_state" where
  "spec_record r st =
     (if is_configuration r then st\<lparr>config_value := r ! 5\<rparr>
      else if is_interface r then
        (if is_msc_interface r
         then st\<lparr>in_msc_interface := True, msc_interface := Some (r ! 2)\<rparr>
         else st\<lparr>in_msc_interface := False\<rparr>)
      else if is_endpoint r \<and> in_msc_interface st then
        (if is_in_endpoint r then st\<lparr>scan_in_ep := r ! 2\<rparr>
         else st\<lparr>scan_out_ep := r ! 2\<rparr>)
      else st)"

definition spec_scan :: "bytes list \<Rightarrow> scan_state" where
  "spec_scan recs = fold spec_record recs scan_init"

text \<open>
  The addresses of the endpoint records that lie inside a Mass-Storage interface; the flag
  says whether the scan is inside one where the list starts.
\<close>

fun msc_endpoints :: "bool \<Rightarrow> bytes list \<Rightarrow> byte list" where
  "msc_endpoints flag [] = []"
| "msc_endpoints flag (r # rs) =
     (if is_interface r then msc_endpoints (is_msc_interface r) rs
      else if is_endpoint r \<and> flag then r ! 2 # msc_endpoints flag rs
      else msc_endpoints flag rs)"
subsection \<open>Concrete sessions and devices\<close>

definition capacity_session :: session where
  "capacity_session = \<lparr>in_ep = 0x81, out_ep = 0x02, sector_count = None, block_size = None,
     lun = 0, cbw = cbw_template, csw = csw_template\<rparr>"

definition capacity_device :: device where
  "capacity_device = \<lparr>script = (\<lambda>k. Done [0x00, 0x00, 0x03, 0xE7, 0x00, 0x00, 0x02, 0x00]), log = []\<rparr>"


text \<open>
  The configuration descriptor of a plain thumb drive: a configuration record (value 1), one
  interface record (number 0, class 8, subclass 6, protocol 0x50), a bulk IN endpoint
  \<open>0x81\<close> and a bulk OUT endpoint \<open>0x02\<close>.
\<close>

definition thumb_drive_descriptor :: bytes where
  "thumb_drive_descriptor =
     [9, 2, 32, 0, 1, 1, 0, 0x80, 0x32,
      9, 4, 0, 0, 2, 8, 6, 0x50, 0,
      7, 5, 0x81, 2, 0, 2, 0,
      7, 5, 0x02, 2, 0, 2, 0]"

text \<open>A device that completes every transfer and answers thirteen zero bytes each time.\<close>

definition ready_device :: device where
  "ready_device = \<lparr>script = (\<lambda>k. Done [0, 0, 0, 0, 0, 0, 0, 0, 0, 0, 0, 0, 0]), log = []\<rparr>"


definition never_ready_device :: device where
  "never_ready_device =
     \<lparr>script = (\<lambda>j. Done [0, 0, 0, 0, 0, 0, 0, 0, 0, 0, 0, 0, 1]), log = []\<rparr>"

text \<open>
  The device that reports status 1 to everything, except that its third transfer (the CSW
  of a command with a data phase issued on a fresh log) carries status 0.
\<close>

definition passing_device :: device where
  "passing_device =
     never_ready_device\<lparr>script := (script never_ready_device)
        (2 := Done [0, 0, 0, 0, 0, 0, 0, 0, 0, 0, 0, 0, 0])\<rparr>"

text \<open>
  The same device, except that its second transfer (the Get-Max-LUN request of a
  construction on a fresh log) stalls, or times out.
\<close>

definition stalled_device :: device where
  "stalled_device = ready_device\<lparr>script := (script ready_device)(1 := Fail Stall)\<rparr>"

definition timeout_device :: device where
  "timeout_device = ready_device\<lparr>script := (script ready_device)(1 := Fail Timeout)\<rparr>"

text \<open>
  The four records of the thumb drive's descriptor, and the descriptor of a device whose
  OUT endpoint record carries the address 0.
\<close>

definition thumb_configuration :: bytes where
  "thumb_configuration = [9, 2, 32, 0, 1, 1, 0, 0x80, 0x32]"

definition thumb_interface :: bytes where
  "thumb_interface = [9, 4, 0, 0, 2, 8, 6, 0x50, 0]"

definition thumb_in_endpoint :: bytes where
  "thumb_in_endpoint = [7, 5, 0x81, 2, 0, 2, 0]"

definition thumb_out_endpoint :: bytes where
  "thumb_out_endpoint = [7, 5, 0x02, 2, 0, 2, 0]"

definition zero_out_descriptor :: bytes where
  "zero_out_descriptor =
     [9, 2, 32, 0, 1, 1, 0, 0x80, 0x32,
      9, 4, 0, 0, 2, 8, 6, 0x50, 0,
      7, 5, 0x81, 2, 0, 2, 0,
      7, 5, 0x00, 2, 0, 2, 0]"

section \<open>Properties\<close>

subsection \<open>Transfers and commands\<close>

declare wait_loop.simps [simp del]

lemma length_fill [simp]: "length (fill buf bs) = length buf"
  by (simp add: fill_def)

lemma transfer_simps [simp]:
  "fst (transfer x d) = script d (length (log d))"
  "log (snd (transfer x d)) = log d @ [x]"
  "script (snd (transfer x d)) = script d"
  by (simp_all add: transfer_def)

lemma dev_write_cases:
  "dev_write ep bs d =
     (case script d (length (log d)) of
        Fail k \<Rightarrow> (Inl (USBError k), d\<lparr>log := log d @ [BulkWrite ep bs]\<rparr>)
      | Done r \<Rightarrow> (Inr (), d\<lparr>log := log d @ [BulkWrite ep bs]\<rparr>))"
  by (simp add: dev_write_def transfer_def split: outcome.splits)

lemma dev_read_cases:
  "dev_read ep buf d =
     (case script d (length (log d)) of
        Fail k \<Rightarrow> (Inl (USBError k), d\<lparr>log := log d @ [BulkRead ep (length buf)]\<rparr>)
      | Done r \<Rightarrow> (Inr (fill buf r), d\<lparr>log := log d @ [BulkRead ep (length buf)]\<rparr>))"
  by (simp add: dev_read_def transfer_def split: outcome.splits)

lemma slice_assign_15:
  "length h = 15 \<Longrightarrow>
     take 15 (h @ t) @ command @ drop (15 + length command) (h @ t)
       = h @ command @ drop (length command) t"
  by simp

lemma pack_refused:
  assumes "length c < 15 \<or> 2 ^ 32 \<le> length data \<or> 256 \<le> length command"
  shows "pack_into_IBxB c (int (length data)) direction (int (length command))
           = (Inl struct_error, cbw_refused c direction (length data))"
  using assms unfolding pack_into_IBxB_def cbw_refused_def by (auto simp: le_nat_iff)

lemma pack_cbw:
  assumes "\<not> (length c < 15 \<or> 2 ^ 32 \<le> length data \<or> 256 \<le> length command)"
  shows "\<exists>c1. pack_into_IBxB c (int (length data)) direction (int (length command))
            = (Inr (), c1)
          \<and> take 15 c1 @ command @ drop (15 + length command) c1
              = cbw_wire c direction command (length data)"
proof -
  let ?h = "take 8 c @ le32 (int (length data)) @ [direction, 0, of_nat (length command)]"
  have len: "length ?h = 15" using assms by (simp add: le32_def)
  have p: "pack_into_IBxB c (int (length data)) direction (int (length command))
      = (Inr (), ?h @ drop 15 c)"
    using assms unfolding pack_into_IBxB_def by (auto simp: le_nat_iff)
  have "take 15 (?h @ drop 15 c) @ command @ drop (15 + length command) (?h @ drop 15 c)
      = ?h @ command @ drop (length command) (drop 15 c)"
    by (rule slice_assign_15 [OF len])
  also have "\<dots> = cbw_wire c direction command (length data)"
    by (simp add: cbw_wire_def add.commute)
  finally show ?thesis using p by blast
qed

lemma data_phase_cbw [simp]:
  "data_phase direction data (s\<lparr>cbw := c\<rparr>) d = data_phase direction data s d"
  by (simp add: data_phase_def)

lemma scsi_command_unfold:
  "scsi_command direction command data s d =
     (if length (cbw s) < 15 \<or> 2 ^ 32 \<le> length data \<or> 256 \<le> length command
      then (Inl struct_error, data,
            s\<lparr>cbw := cbw_refused (cbw s) direction (length data)\<rparr>, d)
      else
        let s1 = s\<lparr>cbw := cbw_wire (cbw s) direction command (length data)\<rparr> in
        (case dev_write (out_ep s) (cbw s1) d of
           (Inl e, d1) \<Rightarrow> (Inl e, data, s1, d1)
         | (Inr u, d1) \<Rightarrow>
           (case data_phase direction data s d1 of
              (Inl e, data', d2) \<Rightarrow> (Inl e, data', s1, d2)
            | (Inr u, data', d2) \<Rightarrow>
              (case dev_read (in_ep s) (csw s) d2 of
                 (Inl e, d3) \<Rightarrow> (Inl e, data', s1, d3)
               | (Inr c', d3) \<Rightarrow> (Inr (), data', s1\<lparr>csw := c'\<rparr>, d3)))))"
proof (cases "length (cbw s) < 15 \<or> 2 ^ 32 \<le> length data \<or> 256 \<le> length command")
  case True
  from pack_refused [OF True] True show ?thesis by (simp add: scsi_command_def)
next
  case False
  from pack_cbw [OF False] obtain c1 where
    p: "pack_into_IBxB (cbw s) (int (length data)) direction (int (length command))
          = (Inr (), c1)"
    and e: "take 15 c1 @ command @ drop (15 + length command) c1
              = cbw_wire (cbw s) direction command (length data)"
    by blast
  from False show ?thesis
    by (simp add: scsi_command_def p e Let_def split: prod.splits sum.splits)
qed


lemma scsi_command_log:
  assumes "scsi_command direction command data s d = (r, b, s', d')"
  shows "\<exists>k. log d' = log d @ take k (command_transfers direction command data s)"
proof -
  let ?T = "command_transfers direction command data s"
  have "log d' = log d \<or> log d' = log d @ take 1 ?T \<or> log d' = log d @ take 2 ?T 
        \<or> log d' = log d @ ?T"
  using assms
  by (auto simp: scsi_command_unfold Let_def data_phase_def dev_write_cases dev_read_cases
      command_transfers_def
      split: sum.splits prod.splits outcome.splits if_splits)
  then show ?thesis
    by (metis append_Nil2 take_0 take_all order_refl)
qed

lemma scsi_command_script:
  assumes "scsi_command direction command data s d = (r, b, s', d')"
  shows "script d' = script d"
  using assms
  by (auto simp: scsi_command_unfold Let_def data_phase_def dev_write_cases dev_read_cases
      split: sum.splits prod.splits outcome.splits if_splits)

lemma scsi_command_done_read:
  assumes "15 \<le> length (cbw s)" "length data < 2 ^ 32" "length command < 256" "data \<noteq> []"
    and "script d (length (log d)) = Done r0"
    and "script d (Suc (length (log d))) = Done r1"
    and "script d (Suc (Suc (length (log d)))) = Done r2"
  shows "scsi_command DIR_IN command data s d =
     (Inr (), fill data r1,
      s\<lparr>cbw := cbw_wire (cbw s) DIR_IN command (length data), csw := fill (csw s) r2\<rparr>,
      d\<lparr>log := log d @ command_transfers DIR_IN command data s\<rparr>)"
  using assms
  by (simp add: scsi_command_unfold Let_def data_phase_def dev_write_cases dev_read_cases
      command_transfers_def)

lemma scsi_command_done_write:
  assumes "15 \<le> length (cbw s)" "length data < 2 ^ 32" "length command < 256" "data \<noteq> []"
    and "script d (length (log d)) = Done r0"
    and "script d (Suc (length (log d))) = Done r1"
    and "script d (Suc (Suc (length (log d)))) = Done r2"
  shows "scsi_command DIR_OUT command data s d =
     (Inr (), data,
      s\<lparr>cbw := cbw_wire (cbw s) DIR_OUT command (length data), csw := fill (csw s) r2\<rparr>,
      d\<lparr>log := log d @ command_transfers DIR_OUT command data s\<rparr>)"
  using assms
  by (simp add: scsi_command_unfold Let_def data_phase_def dev_write_cases dev_read_cases
      command_transfers_def DIR_OUT_def DIR_IN_def)

lemma scsi_command_done_nodata:
  assumes "15 \<le> length (cbw s)" "length command < 256"
    and "script d (length (log d)) = Done r0"
    and "script d (Suc (length (log d))) = Done r1"
  shows "scsi_command direction command [] s d =
     (Inr (), [],
      s\<lparr>cbw := cbw_wire (cbw s) direction command 0, csw := fill (csw s) r1\<rparr>,
      d\<lparr>log := log d @ command_transfers direction command [] s\<rparr>)"
  using assms
  by (simp add: scsi_command_unfold Let_def data_phase_def dev_write_cases dev_read_cases
      command_transfers_def)

lemma be_int_4:
  "be_int [a, b, c, e] = uint a * 2 ^ 24 + uint b * 2 ^ 16 + uint c * 2 ^ 8 + uint e"
  by (simp add: be_int_def)




lemma cbw_template_eq:
  "cbw_template = [0x55, 0x53, 0x42, 0x43, 0, 0, 0, 0, 0, 0, 0, 0, 0, 0, 0, 0,
                   0, 0, 0, 0, 0, 0, 0, 0, 0, 0, 0, 0, 0, 0, 0]"
  by (simp add: cbw_template_def numeral_eq_Suc)

lemma csw_template_eq:
  "csw_template = [0x55, 0x53, 0x42, 0x53, 0, 0, 0, 0, 0, 0, 0, 0, 0]"
  by (simp add: csw_template_def numeral_eq_Suc)

lemma length_templates [simp]:
  "length cbw_template = 31" "length csw_template = 13"
  by (simp_all add: cbw_template_def csw_template_def)

lemma scsi_command_log_shape:
  assumes "scsi_command direction command data s d = (r, b, s', d')"
    and "15 \<le> length (cbw s)" "length data < 2 ^ 32" "length command < 256"
  shows "\<exists>rest. log d' = log d
            @ BulkWrite (out_ep s) (cbw_wire (cbw s) direction command (length data)) # rest
          \<and> prefix rest ((if data = [] then []
                 else if direction = DIR_IN then [BulkRead (in_ep s) (length data)]
                 else [BulkWrite (out_ep s) data])
               @ [BulkRead (in_ep s) (length (csw s))])"
  using assms
  by (auto simp: scsi_command_unfold Let_def data_phase_def dev_write_cases dev_read_cases
      split: sum.splits prod.splits outcome.splits if_splits)

lemma scsi_command_log_shape_in:
  assumes "scsi_command DIR_IN command data s d = (r, b, s', d')"
    and "15 \<le> length (cbw s)" "length data < 2 ^ 32" "length command < 256"
  shows "\<exists>rest. log d' = log d
            @ BulkWrite (out_ep s) (cbw_wire (cbw s) DIR_IN command (length data)) # rest
          \<and> prefix rest ((if data = [] then [] else [BulkRead (in_ep s) (length data)])
               @ [BulkRead (in_ep s) (length (csw s))])"
  using scsi_command_log_shape [OF assms] by (cases "data = []") simp_all

lemma scsi_command_log_shape_out:
  assumes "scsi_command DIR_OUT command data s d = (r, b, s', d')"
    and "15 \<le> length (cbw s)" "length data < 2 ^ 32" "length command < 256"
  shows "\<exists>rest. log d' = log d
            @ BulkWrite (out_ep s) (cbw_wire (cbw s) DIR_OUT command (length data)) # rest
          \<and> prefix rest ((if data = [] then [] else [BulkWrite (out_ep s) data])
               @ [BulkRead (in_ep s) (length (csw s))])"
  using scsi_command_log_shape [OF assms]
  by (cases "data = []") (simp_all add: DIR_OUT_def DIR_IN_def)

lemma pack_into_BBIxH_Inr:
  assumes "0 \<le> N" "N < 2 ^ 32" "0 \<le> n" "n < 2 ^ 16" "0 \<le> l" "l < 256"
  shows "pack_into_BBIxH opcode l N n = Inr ([opcode, of_int l] @ be32 N @ [0] @ be16 n @ [0])"
  using assms by (simp add: pack_into_BBIxH_def)

lemma scan_thumb_drive:
  "scan_loop thumb_drive_descriptor 0 scan_init =
     Some (Inr \<lparr>config_value = 1, in_msc_interface = True, msc_interface = Some 0,
                scan_in_ep = 0x81, scan_out_ep = 0x02\<rparr>)"
  by (simp add: scan_loop.simps thumb_drive_descriptor_def scan_init_def scan_record_def
      getitem_def DESC_CONFIGURATION_def DESC_INTERFACE_def DESC_ENDPOINT_def DIR_IN_def)

lemma command_bytes:
  "test_ready_command l = [0x00, of_int l, 0, 0, 0, 0]"
  "sense_command = [0x03, 0, 0, 0, 18, 0]"
  "inquiry_command = [0x12, 0, 0, 0, 36, 0]"
  "read_capacity_command = [0x25, 0, 0, 0, 0, 0, 0, 0, 0, 0]"
  by (simp_all add: test_ready_command_def sense_command_def inquiry_command_def
      read_capacity_command_def SCSI_CMD_TEST_UNIT_READY_def SCSI_CMD_REQUEST_SENSE_def
      SCSI_CMD_INQUIRY_def SCSI_CMD_READ_CAPACITY_10_def numeral_eq_Suc)

lemma cbw_template_lun:
  "cbw_template[14 := v] = [0x55, 0x53, 0x42, 0x43, 0, 0, 0, 0, 0, 0, 0, 0, 0, 0, v, 0,
                            0, 0, 0, 0, 0, 0, 0, 0, 0, 0, 0, 0, 0, 0, 0]"
  by (simp add: cbw_template_def numeral_eq_Suc)

lemma csw_status_update:
  "[a, b, c, e, f, g, h, i, j, k, l, m, n][12 := v] = [a, b, c, e, f, g, h, i, j, k, l, m, v]"
  "[a, b, c, e, f, g, h, i, j, k, l, m, n] ! 12 = n"
  by (simp_all add: numeral_eq_Suc)

subsection \<open>The readiness loop, round by round\<close>

lemma same_frame_refl [simp]: "same_frame s s"
  by (simp add: same_frame_def)

lemma same_frame_csw [simp]:
  "length c = length (csw s') \<Longrightarrow> same_frame s (s'\<lparr>csw := c\<rparr>) = same_frame s s'"
  by (simp add: same_frame_def)

lemma same_frame_transfers:
  assumes "same_frame s s'" "length command = 6"
  shows "command_transfers direction command data s' = command_transfers direction command data s"
  using assms by (simp add: same_frame_def command_transfers_def cbw_wire_def)

lemma same_frame_step:
  assumes "same_frame s s'" "length command = 6" "21 \<le> length (cbw s)" "length c = length (csw s)"
  shows "same_frame s (s'\<lparr>cbw := cbw_wire (cbw s') direction command n, csw := c\<rparr>)"
  using assms by (simp add: same_frame_def cbw_wire_def le32_def)

lemma fill_status:
  "13 \<le> length c \<Longrightarrow> length b = 13 \<Longrightarrow> fill b c ! 12 = c ! 12"
  by (simp add: fill_def nth_append)

lemma length_commands [simp]:
  "length (test_ready_command l) = 6" "length sense_command = 6" "length inquiry_command = 6"
  "length read_capacity_command = 10"
  by (simp_all add: command_bytes)


lemma command_transfers_read_length:
  "length data = length data' \<Longrightarrow>
     command_transfers DIR_IN command data s = command_transfers DIR_IN command data' s"
  by (auto simp: command_transfers_def)

lemma test_ready_step:
  assumes fr: "same_frame s0 s" and c0: "21 \<le> length (cbw s0)" and w0: "length (csw s0) = 13"
    and dn: "\<forall>j. \<exists>bs. script d j = Done bs"
    and st: "csw_status d (Suc (length (log d))) = Some v"
  shows "\<exists>s'. scsi_command DIR_OUT (test_ready_command (lun s0)) [] s d =
            (Inr (), [], s', d\<lparr>log := log d @ test_ready_transfers s0\<rparr>)
          \<and> same_frame s0 s' \<and> csw s' ! 12 = v"
proof -
  from dn obtain ra where a: "script d (length (log d)) = Done ra" by blast
  from st obtain rb where b: "script d (Suc (length (log d))) = Done rb"
    and lb: "13 \<le> length rb" and v: "rb ! 12 = v"
    by (auto simp: csw_status_def split: outcome.splits if_splits)
  from fr c0 have c: "15 \<le> length (cbw s)" by (simp add: same_frame_def)
  from fr w0 have w: "length (csw s) = 13" by (simp add: same_frame_def)
  let ?s' = "s\<lparr>cbw := cbw_wire (cbw s) DIR_OUT (test_ready_command (lun s0)) 0,
                csw := fill (csw s) rb\<rparr>"
  have "scsi_command DIR_OUT (test_ready_command (lun s0)) [] s d =
     (Inr (), [], ?s',
      d\<lparr>log := log d @ command_transfers DIR_OUT (test_ready_command (lun s0)) [] s\<rparr>)"
    by (rule scsi_command_done_nodata [OF c _ a b]) simp
  moreover have "command_transfers DIR_OUT (test_ready_command (lun s0)) [] s
      = test_ready_transfers s0"
    unfolding test_ready_transfers_def by (rule same_frame_transfers [OF fr]) simp
  moreover have "same_frame s0 ?s'"
    by (rule same_frame_step [OF fr _ c0]) (simp_all add: w w0)
  moreover have "csw ?s' ! 12 = v"
    using fill_status [OF lb w] v by simp
  ultimately show ?thesis by simp
qed

lemma sense_step:
  assumes fr: "same_frame s0 s" and c0: "21 \<le> length (cbw s0)" and w0: "length (csw s0) = 13"
    and r: "length r = 18"
    and dn: "\<forall>j. \<exists>bs. script d j = Done bs"
  shows "\<exists>r' s'. scsi_command DIR_IN sense_command r s d =
            (Inr (), r', s', d\<lparr>log := log d @ sense_transfers s0\<rparr>)
          \<and> same_frame s0 s' \<and> length r' = 18"
proof -
  from dn obtain ra where a: "script d (length (log d)) = Done ra" by blast
  from dn obtain rb where b: "script d (Suc (length (log d))) = Done rb" by blast
  from dn obtain rc where cc: "script d (Suc (Suc (length (log d)))) = Done rc" by blast
  from fr c0 have c: "15 \<le> length (cbw s)" by (simp add: same_frame_def)
  from fr w0 have w: "length (csw s) = 13" by (simp add: same_frame_def)
  let ?s' = "s\<lparr>cbw := cbw_wire (cbw s) DIR_IN sense_command (length r),
                csw := fill (csw s) rc\<rparr>"
  have "scsi_command DIR_IN sense_command r s d =
     (Inr (), fill r rb, ?s',
      d\<lparr>log := log d @ command_transfers DIR_IN sense_command r s\<rparr>)"
    by (rule scsi_command_done_read [OF c _ _ _ a b cc]) (use r in auto)
  moreover have "command_transfers DIR_IN sense_command r s
      = command_transfers DIR_IN sense_command (replicate 18 0) s"
    by (rule command_transfers_read_length) (simp add: r)
  moreover have "command_transfers DIR_IN sense_command (replicate 18 0) s = sense_transfers s0"
    unfolding sense_transfers_def by (rule same_frame_transfers [OF fr]) simp
  moreover have "same_frame s0 ?s'"
    by (rule same_frame_step [OF fr _ c0]) (simp_all add: w w0)
  ultimately show ?thesis by (simp add: r)
qed


lemma length_ready_transfers [simp]:
  "length (test_ready_transfers s) = 2" "length (sense_transfers s) = 3"
  by (simp_all add: test_ready_transfers_def sense_transfers_def command_transfers_def)

lemma csw_status_log: "csw_status (d\<lparr>log := l\<rparr>) j = csw_status d j"
  by (simp add: csw_status_def)

lemma wait_loop_run:
  assumes c0: "21 \<le> length (cbw s0)" and w0: "length (csw s0) = 13"
  shows "same_frame s0 s \<Longrightarrow> length r = 18 \<Longrightarrow> \<forall>j. \<exists>bs. script d j = Done bs \<Longrightarrow>
     f 0 = csw s ! 12 \<Longrightarrow>
     \<forall>i<m. csw_status d (length (log d) + 5 * i + 4) = Some (f (Suc i)) \<Longrightarrow>
     \<forall>i<m. f i \<noteq> 0 \<and> try_num + int i < tries \<Longrightarrow>
     f m = 0 \<or> tries \<le> try_num + int m \<Longrightarrow>
     \<exists>s'. wait_loop tries try_num (test_ready_command (lun s0)) sense_command r s d
            = (Inr (), s',
               d\<lparr>log := log d
                  @ concat (replicate m (sense_transfers s0 @ test_ready_transfers s0))\<rparr>)
          \<and> same_frame s0 s' \<and> csw s' ! 12 = f m"
proof (induction m arbitrary: s d r f try_num)
  case 0
  then have "\<not> (csw s ! 12 \<noteq> 0 \<and> try_num < tries)" by auto
  then have "wait_loop tries try_num (test_ready_command (lun s0)) sense_command r s d
      = (Inr (), s, d)"
    by (subst wait_loop.simps) auto
  with 0 show ?case by simp
next
  case (Suc m)
  let ?X = "sense_transfers s0 @ test_ready_transfers s0"
  from Suc.prems(6) have go: "csw s ! 12 \<noteq> 0 \<and> try_num < tries"
    using Suc.prems(4) by force
  from sense_step [OF Suc.prems(1) c0 w0 Suc.prems(2) Suc.prems(3)]
  obtain r1 s1 where
    1: "scsi_command DIR_IN sense_command r s d =
          (Inr (), r1, s1, d\<lparr>log := log d @ sense_transfers s0\<rparr>)"
    and fr1: "same_frame s0 s1" and lr1: "length r1 = 18"
    by blast
  let ?d1 = "d\<lparr>log := log d @ sense_transfers s0\<rparr>"
  have dn1: "\<forall>j. \<exists>bs. script ?d1 j = Done bs" using Suc.prems(3) by simp
  from Suc.prems(5) have "csw_status d (length (log d) + 5 * 0 + 4) = Some (f (Suc 0))"
    by blast
  moreover have "Suc (length (log ?d1)) = length (log d) + 5 * 0 + 4" by simp
  ultimately have st1: "csw_status ?d1 (Suc (length (log ?d1))) = Some (f (Suc 0))"
    by (simp only: csw_status_log)
  from test_ready_step [OF fr1 c0 w0 dn1 st1]
  obtain s2 where
    2: "scsi_command DIR_OUT (test_ready_command (lun s0)) [] s1 ?d1 =
          (Inr (), [], s2, ?d1\<lparr>log := log ?d1 @ test_ready_transfers s0\<rparr>)"
    and fr2: "same_frame s0 s2" and v2: "csw s2 ! 12 = f (Suc 0)"
    by blast
  let ?d2 = "?d1\<lparr>log := log ?d1 @ test_ready_transfers s0\<rparr>"
  have dn2: "\<forall>j. \<exists>bs. script ?d2 j = Done bs" using Suc.prems(3) by simp
  let ?f = "\<lambda>i. f (Suc i)"
  have f0: "?f 0 = csw s2 ! 12" using v2 by simp
  have st2: "\<forall>i<m. csw_status ?d2 (length (log ?d2) + 5 * i + 4) = Some (?f (Suc i))"
  proof (intro allI impI)
    fix i assume "i < m"
    then have "Suc i < Suc m" by simp
    with Suc.prems(5)
    have "csw_status d (length (log d) + 5 * Suc i + 4) = Some (f (Suc (Suc i)))"
      by blast
    moreover have "length (log ?d2) + 5 * i + 4 = length (log d) + 5 * Suc i + 4" by simp
    ultimately show "csw_status ?d2 (length (log ?d2) + 5 * i + 4) = Some (?f (Suc i))"
      by (simp only: csw_status_log)
  qed
  have nz: "\<forall>i<m. ?f i \<noteq> 0 \<and> (try_num + 1) + int i < tries"
  proof (intro allI impI)
    fix i assume "i < m"
    then have "Suc i < Suc m" by simp
    with Suc.prems(6) have "f (Suc i) \<noteq> 0 \<and> try_num + int (Suc i) < tries"
      by blast
    then show "?f i \<noteq> 0 \<and> (try_num + 1) + int i < tries" by auto
  qed
  have ex: "?f m = 0 \<or> tries \<le> (try_num + 1) + int m"
    using Suc.prems(7) by auto
  from Suc.IH [OF fr2 lr1 dn2 f0 st2 nz ex]
  obtain s' where
    3: "wait_loop tries (try_num + 1) (test_ready_command (lun s0)) sense_command r1 s2 ?d2
          = (Inr (), s', ?d2\<lparr>log := log ?d2 @ concat (replicate m ?X)\<rparr>)"
    and fr3: "same_frame s0 s'" and v3: "csw s' ! 12 = f (Suc m)"
    by blast
  have "wait_loop tries try_num (test_ready_command (lun s0)) sense_command r s d
      = wait_loop tries (try_num + 1) (test_ready_command (lun s0)) sense_command r1 s2 ?d2"
    by (subst wait_loop.simps) (simp add: go 1 2)
  with 3 fr3 v3 show ?case by simp
qed


lemma wait_for_ready_run:
  assumes c0: "21 \<le> length (cbw s)" and w0: "length (csw s) = 13"
    and l: "0 \<le> lun s" "lun s < 256"
    and dn: "\<forall>j. \<exists>bs. script d j = Done bs"
    and st: "\<forall>i\<le>m. csw_status d (length (log d) + 5 * i + 1) = Some (f i)"
    and nz: "\<forall>i<m. f i \<noteq> 0 \<and> int i < tries"
    and ex: "f m = 0 \<or> tries \<le> int m"
  shows "\<exists>s'. wait_for_ready tries s d =
           (if f m = 0 then Inr () else Inl RuntimeError_Out_of_tries, s',
            d\<lparr>log := log d @ test_ready_transfers s
               @ concat (replicate m (sense_transfers s @ test_ready_transfers s))\<rparr>)
         \<and> same_frame s s'"
proof -
  let ?s0 = "s\<lparr>csw := (csw s)[12 := 1]\<rparr>"
  let ?X = "sense_transfers s @ test_ready_transfers s"
  have fr0: "same_frame s ?s0" by simp
  from st have "csw_status d (length (log d) + 5 * 0 + 1) = Some (f 0)" by blast
  then have st0: "csw_status d (Suc (length (log d))) = Some (f 0)" by simp
  from test_ready_step [OF fr0 c0 w0 dn st0]
  obtain s1 where
    1: "scsi_command DIR_OUT (test_ready_command (lun s)) [] ?s0 d =
          (Inr (), [], s1, d\<lparr>log := log d @ test_ready_transfers s\<rparr>)"
    and fr1: "same_frame s s1" and v1: "csw s1 ! 12 = f 0"
    by blast
  let ?d1 = "d\<lparr>log := log d @ test_ready_transfers s\<rparr>"
  have dn1: "\<forall>j. \<exists>bs. script ?d1 j = Done bs" using dn by simp
  have st1: "\<forall>i<m. csw_status ?d1 (length (log ?d1) + 5 * i + 4) = Some (f (Suc i))"
  proof (intro allI impI)
    fix i assume "i < m"
    then have "Suc i \<le> m" by simp
    with st have "csw_status d (length (log d) + 5 * Suc i + 1) = Some (f (Suc i))" by blast
    moreover have "length (log ?d1) + 5 * i + 4 = length (log d) + 5 * Suc i + 1" by simp
    ultimately show "csw_status ?d1 (length (log ?d1) + 5 * i + 4) = Some (f (Suc i))"
      by (simp only: csw_status_log)
  qed
  have nz1: "\<forall>i<m. f i \<noteq> 0 \<and> 0 + int i < tries" using nz by simp
  have ex1: "f m = 0 \<or> tries \<le> 0 + int m" using ex by simp
  have lr: "length (replicate 18 (0::byte)) = 18" by simp
  from wait_loop_run [OF c0 w0 fr1 lr dn1 v1 [symmetric] st1 nz1 ex1]
  obtain s2 where
    2: "wait_loop tries 0 (test_ready_command (lun s)) sense_command (replicate 18 0) s1 ?d1
          = (Inr (), s2, ?d1\<lparr>log := log ?d1 @ concat (replicate m ?X)\<rparr>)"
    and fr2: "same_frame s s2" and v2: "csw s2 ! 12 = f m"
    by blast
  from w0 l 1 2 v2 have "wait_for_ready tries s d =
           (if f m = 0 then Inr () else Inl RuntimeError_Out_of_tries, s2,
            d\<lparr>log := log d @ test_ready_transfers s @ concat (replicate m ?X)\<rparr>)"
    by (simp add: wait_for_ready_def Let_def)
  with fr2 show ?thesis by blast
qed

subsection \<open>Construction on a device that completes every transfer\<close>

lemma new_session_simps [simp]:
  "length (cbw (new_session st l)) = 31" "length (csw (new_session st l)) = 13"
  "lun (new_session st l) = l" "in_ep (new_session st l) = scan_in_ep st"
  "out_ep (new_session st l) = scan_out_ep st" "sector_count (new_session st l) = None"
  "block_size (new_session st l) = None"
  by (simp_all add: new_session_def)

lemma inquire_run:
  assumes c: "21 \<le> length (cbw s)" and dn: "\<forall>j. \<exists>bs. script d j = Done bs"
  shows "\<exists>s'. inquire s d = (Inr (), s', d\<lparr>log := log d @ inquiry_transfers s\<rparr>)
           \<and> same_frame s s'"
proof -
  from dn obtain ra where a: "script d (length (log d)) = Done ra" by blast
  from dn obtain rb where b: "script d (Suc (length (log d))) = Done rb" by blast
  from dn obtain rc where cc: "script d (Suc (Suc (length (log d)))) = Done rc" by blast
  from c have c15: "15 \<le> length (cbw s)" by simp
  let ?s' = "s\<lparr>cbw := cbw_wire (cbw s) DIR_IN inquiry_command (length (replicate 36 (0::byte))),
                csw := fill (csw s) rc\<rparr>"
  have "scsi_command DIR_IN inquiry_command (replicate 36 0) s d =
     (Inr (), fill (replicate 36 0) rb, ?s',
      d\<lparr>log := log d @ command_transfers DIR_IN inquiry_command (replicate 36 0) s\<rparr>)"
    by (rule scsi_command_done_read [OF c15 _ _ _ a b cc]) simp_all
  moreover have "same_frame s ?s'"
    by (rule same_frame_step [OF same_frame_refl _ c]) simp_all
  ultimately show ?thesis by (simp add: inquire_def inquiry_transfers_def)
qed

lemma init_session_run:
  assumes ix: "msc_interface st = Some ix" and l: "0 \<le> lun0" "lun0 < 256"
    and dn: "\<forall>j. \<exists>bs. script d j = Done bs"
  shows "\<exists>s3. same_frame (new_session st lun0) s3 \<and>
     init_session st lun0 d =
       (case wait_for_ready 100 s3
               (d\<lparr>log := log d @ [SetConfiguration (config_value st),
                                    CtrlTransfer 0xA1 254 0 ix 1]
                           @ inquiry_transfers (new_session st lun0)\<rparr>) of
          (Inl e, s4, d4) \<Rightarrow> (Inl e, d4)
        | (Inr u, s4, d4) \<Rightarrow> (Inr s4, d4))"
proof -
  from dn obtain ra where a: "script d (length (log d)) = Done ra" by blast
  from dn obtain rb where b: "script d (Suc (length (log d))) = Done rb" by blast
  let ?d1 = "d\<lparr>log := log d @ [SetConfiguration (config_value st)]\<rparr>"
  let ?d2 = "d\<lparr>log := log d @ [SetConfiguration (config_value st),
                                  CtrlTransfer 0xA1 254 0 ix 1]\<rparr>"
  have 1: "set_configuration (config_value st) d = (Inr (), ?d1)"
    by (simp add: set_configuration_def transfer_def a)
  have 2: "get_max_lun ix ?d1 = (Inr (uint (fill (replicate 1 0) rb ! 0) + 1), ?d2)"
    by (simp add: get_max_lun_def ctrl_transfer_def transfer_def b REQ_RCPT_INTERFACE_def
        REQ_TYPE_CLASS_def DIR_IN_def MSC_REQ_GET_GET_MAX_LUN_def)
  have dn2: "\<forall>j. \<exists>bs. script ?d2 j = Done bs" using dn by simp
  have c: "21 \<le> length (cbw (new_session st lun0))" by simp
  from inquire_run [OF c dn2] obtain s3 where
    3: "inquire (new_session st lun0) ?d2
          = (Inr (), s3, ?d2\<lparr>log := log ?d2 @ inquiry_transfers (new_session st lun0)\<rparr>)"
    and fr: "same_frame (new_session st lun0) s3"
    by blast
  from l have "init_session st lun0 d =
       (case wait_for_ready 100 s3
               (?d2\<lparr>log := log ?d2 @ inquiry_transfers (new_session st lun0)\<rparr>) of
          (Inl e, s4, d4) \<Rightarrow> (Inl e, d4)
        | (Inr u, s4, d4) \<Rightarrow> (Inr s4, d4))"
    by (simp add: init_session_def 1 ix 2 3 [simplified])
  with fr show ?thesis by auto
qed

lemma wait_for_ready_exhausted:
  assumes "length (cbw s) = 31" and "length (csw s) = 13" and "0 \<le> lun s" and "lun s < 256"
    and "\<forall>j. \<exists>bs. script d j = Done bs"
    and "\<forall>k\<le>nat tries. \<exists>v. csw_status d (length (log d) + 5 * k + 1) = Some v \<and> v \<noteq> 0"
  shows "\<exists>s'. wait_for_ready tries s d =
           (Inl RuntimeError_Out_of_tries, s',
            d\<lparr>log := log d @ test_ready_transfers s
               @ concat (replicate (nat tries) (sense_transfers s @ test_ready_transfers s))\<rparr>)
         \<and> same_frame s s'"
proof -
  let ?f = "\<lambda>k. the (csw_status d (length (log d) + 5 * k + 1))"
  have c0: "21 \<le> length (cbw s)" using assms(1) by simp
  have st: "\<forall>i\<le>nat tries. csw_status d (length (log d) + 5 * i + 1) = Some (?f i)"
    using assms(6) by auto
  have nz: "\<forall>i<nat tries. ?f i \<noteq> 0 \<and> int i < tries"
  proof (intro allI impI)
    fix i assume i: "i < nat tries"
    then have "i \<le> nat tries" by simp
    with assms(6) obtain v where "csw_status d (length (log d) + 5 * i + 1) = Some v" "v \<noteq> 0"
      by blast
    with i show "?f i \<noteq> 0 \<and> int i < tries" by simp
  qed
  have ex: "?f (nat tries) = 0 \<or> tries \<le> int (nat tries)" by simp
  from assms(6) obtain v where "csw_status d (length (log d) + 5 * nat tries + 1) = Some v"
    "v \<noteq> 0" by blast
  then have "?f (nat tries) \<noteq> 0" by simp
  with wait_for_ready_run [OF c0 assms(2) assms(3) assms(4) assms(5) st nz ex]
  show ?thesis by auto
qed


lemma same_frame_ready_transfers:
  assumes "same_frame s s'"
  shows "test_ready_transfers s' = test_ready_transfers s"
    and "sense_transfers s' = sense_transfers s"
proof -
  from assms have l: "lun s' = lun s" by (simp add: same_frame_def)
  show "test_ready_transfers s' = test_ready_transfers s"
    unfolding test_ready_transfers_def l by (rule same_frame_transfers [OF assms]) simp
  show "sense_transfers s' = sense_transfers s"
    unfolding sense_transfers_def by (rule same_frame_transfers [OF assms]) simp
qed


subsection \<open>The scan raises nothing but an index error\<close>

lemma getitem_error: "getitem xs j = Inl e \<Longrightarrow> e = IndexError"
  by (simp add: getitem_def split: if_splits)

lemma scan_record_error: "scan_record cd i st = Inl e \<Longrightarrow> e = IndexError"
  by (auto simp: scan_record_def dest: getitem_error split: sum.splits if_splits)

lemma scan_loop_error:
  assumes "scan_loop cd i st = Some y"
  shows "\<forall>e. y = Inl e \<longrightarrow> e = IndexError"
proof (rule scan_loop.raw_induct
    [where P = "\<lambda>cd i st y. \<forall>e. y = Inl e \<longrightarrow> e = IndexError", OF _ assms])
  fix loop :: "bytes \<Rightarrow> nat \<Rightarrow> scan_state \<Rightarrow> (error + scan_state) option"
  fix cd i st y
  assume IH: "\<And>i st b y. loop i st b = Some y \<Longrightarrow> \<forall>e. y = Inl e \<longrightarrow> e = IndexError"
    and eq: "(if i < length cd
      then case scan_record cd i st of Inl e \<Rightarrow> Some (Inl e)
           | Inr st' \<Rightarrow> loop cd (i + unat (cd ! i)) st'
      else Some (Inr st)) = Some y"
  show "\<forall>e. y = Inl e \<longrightarrow> e = IndexError"
  proof (cases "i < length cd")
    case False
    with eq show ?thesis by auto
  next
    case True
    show ?thesis
    proof (cases "scan_record cd i st")
      case (Inl e)
      with True eq scan_record_error [OF Inl] show ?thesis by auto
    next
      case (Inr st')
      with True eq have "loop cd (i + unat (cd ! i)) st' = Some y" by simp
      then show ?thesis by (rule IH)
    qed
  qed
qed

subsection \<open>Runs on devices in the same position\<close>

lemma same_from_refl [simp]: "same_from d d"
  by (simp add: same_from_def)

lemma same_from_next:
  assumes "same_from d e"
  shows "script d (length (log d)) = script e (length (log e))"
    and "same_from (d\<lparr>log := log d @ [x]\<rparr>) (e\<lparr>log := log e @ [x]\<rparr>)"
  using assms by (simp_all add: same_from_def)

lemma dev_write_same_from:
  assumes "same_from d e" and "dev_write ep bs d = (r, d')"
  shows "\<exists>e'. dev_write ep bs e = (r, e') \<and> same_from d' e'"
  using assms(2) same_from_next(1) [OF assms(1)]
    same_from_next(2) [OF assms(1), of "BulkWrite ep bs"]
  by (auto simp: dev_write_cases split: outcome.splits)

lemma dev_read_same_from:
  assumes "same_from d e" and "dev_read ep buf d = (r, d')"
  shows "\<exists>e'. dev_read ep buf e = (r, e') \<and> same_from d' e'"
  using assms(2) same_from_next(1) [OF assms(1)]
    same_from_next(2) [OF assms(1), of "BulkRead ep (length buf)"]
  by (auto simp: dev_read_cases split: outcome.splits)

lemma data_phase_same_from:
  assumes "same_from d e" and "data_phase direction data s d = (r, b, d')"
  shows "\<exists>e'. data_phase direction data s e = (r, b, e') \<and> same_from d' e'"
proof (cases "data = []")
  case True
  with assms show ?thesis by (simp add: data_phase_def)
next
  case False
  show ?thesis
  proof (cases "direction = DIR_IN")
    case True
    obtain r1 d1 where 1: "dev_read (in_ep s) data d = (r1, d1)" by (cases "dev_read (in_ep s) data d")
    from dev_read_same_from [OF assms(1) 1] obtain e1 where
      2: "dev_read (in_ep s) data e = (r1, e1)" and 3: "same_from d1 e1" by blast
    from assms(2) False True 1 2 3 show ?thesis
      by (auto simp: data_phase_def split: sum.splits)
  next
    case dir: False
    obtain r1 d1 where 1: "dev_write (out_ep s) data d = (r1, d1)"
      by (cases "dev_write (out_ep s) data d")
    from dev_write_same_from [OF assms(1) 1] obtain e1 where
      2: "dev_write (out_ep s) data e = (r1, e1)" and 3: "same_from d1 e1" by blast
    from assms(2) False dir 1 2 3 show ?thesis
      by (auto simp: data_phase_def split: sum.splits)
  qed
qed

lemma scsi_command_same_from:
  assumes sf: "same_from d e" and c: "scsi_command direction command data s d = (r, b, s', d')"
  shows "\<exists>e'. scsi_command direction command data s e = (r, b, s', e') \<and> same_from d' e'"
proof (cases "length (cbw s) < 15 \<or> 2 ^ 32 \<le> length data \<or> 256 \<le> length command")
  case True
  with c sf show ?thesis by (auto simp: scsi_command_unfold)
next
  case False
  let ?s1 = "s\<lparr>cbw := cbw_wire (cbw s) direction command (length data)\<rparr>"
  obtain r1 d1 where 1: "dev_write (out_ep s) (cbw ?s1) d = (r1, d1)"
    by (cases "dev_write (out_ep s) (cbw ?s1) d")
  from dev_write_same_from [OF sf 1] obtain e1 where
    e1w: "dev_write (out_ep s) (cbw ?s1) e = (r1, e1)" and sf1: "same_from d1 e1" by blast
  show ?thesis
  proof (cases r1)
    case (Inl x)
    with c False 1 e1w sf1 show ?thesis by (auto simp: scsi_command_unfold Let_def)
  next
    case (Inr u)
    obtain r2 b2 d2 where 2: "data_phase direction data s d1 = (r2, b2, d2)"
      by (cases "data_phase direction data s d1")
    from data_phase_same_from [OF sf1 2] obtain e2 where
      e2w: "data_phase direction data s e1 = (r2, b2, e2)" and sf2: "same_from d2 e2" by blast
    show ?thesis
    proof (cases r2)
      case (Inl x)
      with c False 1 e1w Inr 2 e2w sf2 show ?thesis by (auto simp: scsi_command_unfold Let_def)
    next
      case r2: (Inr u2)
      obtain r3 d3 where 3: "dev_read (in_ep s) (csw s) d2 = (r3, d3)"
        by (cases "dev_read (in_ep s) (csw s) d2")
      from dev_read_same_from [OF sf2 3] obtain e3 where
        e3w: "dev_read (in_ep s) (csw s) e2 = (r3, e3)" and sf3: "same_from d3 e3" by blast
      from c False 1 e1w Inr 2 e2w r2 3 e3w sf3 show ?thesis
        by (auto simp: scsi_command_unfold Let_def split: sum.splits)
    qed
  qed
qed

lemma wait_loop_same_from:
  "same_from d e \<Longrightarrow>
   wait_loop tries try_num test_ready sense sense_response s d = (res, s', d') \<Longrightarrow>
   \<exists>e'. wait_loop tries try_num test_ready sense sense_response s e = (res, s', e')
        \<and> same_from d' e'"
proof (induction tries try_num test_ready sense sense_response s d arbitrary: e res s' d'
    rule: wait_loop.induct)
  case (1 tries try_num test_ready sense r s d)
  note unf = wait_loop.simps [of tries try_num test_ready sense r s]
  show ?case
  proof (cases "csw s ! 12 \<noteq> 0 \<and> try_num < tries")
    case False
    then have "wait_loop tries try_num test_ready sense r s d = (Inr (), s, d)"
      and "wait_loop tries try_num test_ready sense r s e = (Inr (), s, e)"
      by (auto simp: unf)
    with "1.prems" show ?thesis by simp
  next
    case True
    obtain r1 b1 s1 d1 where a: "scsi_command DIR_IN sense r s d = (r1, b1, s1, d1)"
      by (metis prod_cases4)
    from scsi_command_same_from [OF "1.prems"(1) a] obtain e1 where
      a': "scsi_command DIR_IN sense r s e = (r1, b1, s1, e1)" and sf1: "same_from d1 e1"
      by blast
    show ?thesis
    proof (cases r1)
      case (Inl x)
      with True a a' have "wait_loop tries try_num test_ready sense r s d = (Inl x, s1, d1)"
        and "wait_loop tries try_num test_ready sense r s e = (Inl x, s1, e1)"
        by (simp_all add: unf)
      with "1.prems"(2) sf1 show ?thesis by simp
    next
      case (Inr u)
      obtain r2 b2 s2 d2 where b: "scsi_command DIR_OUT test_ready [] s1 d1 = (r2, b2, s2, d2)"
        by (metis prod_cases4)
      from scsi_command_same_from [OF sf1 b] obtain e2 where
        b': "scsi_command DIR_OUT test_ready [] s1 e1 = (r2, b2, s2, e2)"
        and sf2: "same_from d2 e2"
        by blast
      show ?thesis
      proof (cases r2)
        case (Inl x)
        with True a a' Inr b b'
        have "wait_loop tries try_num test_ready sense r s d = (Inl x, s2, d2)"
          and "wait_loop tries try_num test_ready sense r s e = (Inl x, s2, e2)"
          by (simp_all add: unf)
        with "1.prems"(2) sf2 show ?thesis by simp
      next
        case r2: (Inr u2)
        from "1.prems"(2) True a Inr b r2
        have w: "wait_loop tries (try_num + 1) test_ready sense b1 s2 d2 = (res, s', d')"
          by (simp add: unf)
        have "\<exists>e'. wait_loop tries (try_num + 1) test_ready sense b1 s2 e2 = (res, s', e')
            \<and> same_from d' e'"
          by (rule "1.IH" [OF True a [symmetric] Inr refl refl b [symmetric] r2 refl refl sf2 w])
        with True a' Inr b' r2 show ?thesis by (simp add: unf)
      qed
    qed
  qed
qed

lemma wait_for_ready_same_from:
  assumes "same_from d e" and "wait_for_ready tries s d = (res, s', d')"
  shows "\<exists>e'. wait_for_ready tries s e = (res, s', e') \<and> same_from d' e'"
proof (cases "length (csw s) \<le> 12 \<or> lun s < 0 \<or> 256 \<le> lun s")
  case True
  with assms show ?thesis by (auto simp: wait_for_ready_def Let_def split: if_splits)
next
  case False
  let ?s0 = "s\<lparr>csw := (csw s)[12 := 1]\<rparr>"
  obtain r1 b1 s1 d1 where
    a: "scsi_command DIR_OUT (test_ready_command (lun s)) [] ?s0 d = (r1, b1, s1, d1)"
    by (metis prod_cases4)
  from scsi_command_same_from [OF assms(1) a] obtain e1 where
    a': "scsi_command DIR_OUT (test_ready_command (lun s)) [] ?s0 e = (r1, b1, s1, e1)"
    and sf1: "same_from d1 e1"
    by blast
  show ?thesis
  proof (cases r1)
    case (Inl x)
    with assms(2) False a a' sf1 show ?thesis by (auto simp: wait_for_ready_def Let_def)
  next
    case (Inr u)
    obtain r2 s2 d2 where
      b: "wait_loop tries 0 (test_ready_command (lun s)) sense_command (replicate 18 0) s1 d1
            = (r2, s2, d2)"
      by (metis prod_cases3)
    from wait_loop_same_from [OF sf1 b] obtain e2 where
      b': "wait_loop tries 0 (test_ready_command (lun s)) sense_command (replicate 18 0) s1 e1
            = (r2, s2, e2)"
      and sf2: "same_from d2 e2"
      by blast
    from assms(2) False a a' Inr b b' sf2 show ?thesis
      by (auto simp: wait_for_ready_def Let_def split: sum.splits if_splits)
  qed
qed

lemma inquire_same_from:
  assumes "same_from d e" and "inquire s d = (res, s', d')"
  shows "\<exists>e'. inquire s e = (res, s', e') \<and> same_from d' e'"
proof -
  obtain r1 b1 s1 d1 where
    a: "scsi_command DIR_IN inquiry_command (replicate 36 0) s d = (r1, b1, s1, d1)"
    by (metis prod_cases4)
  from scsi_command_same_from [OF assms(1) a] obtain e1 where
    "scsi_command DIR_IN inquiry_command (replicate 36 0) s e = (r1, b1, s1, e1)"
    and "same_from d1 e1"
    by blast
  with assms(2) a show ?thesis by (auto simp: inquire_def)
qed

lemma get_max_lun_total:
  "\<exists>m. get_max_lun ix d = (Inr m, d\<lparr>log := log d @ [CtrlTransfer 0xA1 254 0 ix 1]\<rparr>)"
  by (simp add: get_max_lun_def ctrl_transfer_def transfer_def REQ_RCPT_INTERFACE_def
      REQ_TYPE_CLASS_def DIR_IN_def MSC_REQ_GET_GET_MAX_LUN_def split: outcome.splits)

lemma set_configuration_cases:
  "set_configuration v d =
     (case script d (length (log d)) of
        Fail k \<Rightarrow> (Inl (USBError k), d\<lparr>log := log d @ [SetConfiguration v]\<rparr>)
      | Done r \<Rightarrow> (Inr (), d\<lparr>log := log d @ [SetConfiguration v]\<rparr>))"
  by (simp add: set_configuration_def transfer_def split: outcome.splits)

lemma init_session_max_lun_irrelevant:
  assumes lg: "log d = log e"
    and sc: "\<forall>j. j \<noteq> Suc (length (log d)) \<longrightarrow> script d j = script e j"
    and run: "init_session st lun0 d = (r, d')"
  shows "\<exists>e'. init_session st lun0 e = (r, e') \<and> log e' = log d'"
proof -
  from sc have s0: "script d (length (log d)) = script e (length (log d))" by simp
  let ?d1 = "d\<lparr>log := log d @ [SetConfiguration (config_value st)]\<rparr>"
  let ?e1 = "e\<lparr>log := log e @ [SetConfiguration (config_value st)]\<rparr>"
  show ?thesis
  proof (cases "script d (length (log d))")
    case (Fail k)
    with s0 lg have "script e (length (log e)) = Fail k" by simp
    with Fail run lg show ?thesis
      by (auto simp: init_session_def set_configuration_cases)
  next
    case (Done bs)
    with s0 lg have se: "script e (length (log e)) = Done bs" by simp
    have 1: "set_configuration (config_value st) d = (Inr (), ?d1)"
      by (simp add: set_configuration_cases Done)
    have 2: "set_configuration (config_value st) e = (Inr (), ?e1)"
      by (simp add: set_configuration_cases se)
    show ?thesis
    proof (cases "msc_interface st")
      case None
      with run 1 2 lg show ?thesis by (auto simp: init_session_def)
    next
      case (Some ix)
      let ?d2 = "?d1\<lparr>log := log ?d1 @ [CtrlTransfer 0xA1 254 0 ix 1]\<rparr>"
      let ?e2 = "?e1\<lparr>log := log ?e1 @ [CtrlTransfer 0xA1 254 0 ix 1]\<rparr>"
      from get_max_lun_total [of ix ?d1] obtain m where 3: "get_max_lun ix ?d1 = (Inr m, ?d2)"
        by blast
      from get_max_lun_total [of ix ?e1] obtain n where 4: "get_max_lun ix ?e1 = (Inr n, ?e2)"
        by blast
      have sf: "same_from ?d2 ?e2"
        using lg sc by (simp add: same_from_def)
      show ?thesis
      proof (cases "lun0 < 0 \<or> 256 \<le> lun0")
        case True
        with run 1 2 Some 3 4 lg show ?thesis by (auto simp: init_session_def)
      next
        case False
        obtain r3 s3 d3 where 5: "inquire (new_session st lun0) ?d2 = (r3, s3, d3)"
          by (metis prod_cases3)
        from inquire_same_from [OF sf 5] obtain e3 where
          6: "inquire (new_session st lun0) ?e2 = (r3, s3, e3)" and sf3: "same_from d3 e3"
          by blast
        show ?thesis
        proof (cases r3)
          case (Inl x)
          with run 1 2 Some 3 4 False 5 6 sf3 show ?thesis
            by (auto simp: init_session_def same_from_def)
        next
          case (Inr u)
          obtain r4 s4 d4 where 7: "wait_for_ready 100 s3 d3 = (r4, s4, d4)"
            by (metis prod_cases3)
          from wait_for_ready_same_from [OF sf3 7] obtain e4 where
            8: "wait_for_ready 100 s3 e3 = (r4, s4, e4)" and sf4: "same_from d4 e4"
            by blast
          from run 1 2 Some 3 4 False 5 6 Inr 7 8 sf4 show ?thesis
            by (auto simp: init_session_def same_from_def split: sum.splits)
        qed
      qed
    qed
  qed
qed

subsection \<open>Transport failures come through\<close>

lemma faithful_seq:
  assumes "faithful X d (Inr x) d1" and "faithful X d1 r d2"
  shows "faithful X d r d2"
  using assms unfolding faithful_def
  by (auto simp: not_less dest: prefix_length_le)

lemma faithful_stop:
  "\<forall>k. r \<noteq> Inl (USBError k) \<Longrightarrow> faithful X d r d"
  by (simp add: faithful_def)

lemma faithful_result:
  "faithful X d (Inr x) d' \<Longrightarrow> \<forall>k. r \<noteq> Inl (USBError k) \<Longrightarrow> faithful X d r d'"
  by (simp add: faithful_def)

lemma faithful_Inl:
  "faithful X d (Inl e :: error + 'a) d' \<Longrightarrow> faithful X d (Inl e :: error + 'b) d'"
  by (simp add: faithful_def)

lemma faithful_widen:
  "faithful {} d r d' \<Longrightarrow> \<forall>j\<in>X. j < length (log d) \<Longrightarrow> faithful X d r d'"
  unfolding faithful_def by (auto simp: not_less) force

lemma dev_write_faithful:
  "dev_write ep bs d = (r, d') \<Longrightarrow> faithful {} d r d'"
  by (auto simp: dev_write_cases faithful_def less_Suc_eq split: outcome.splits)

lemma dev_read_faithful:
  "dev_read ep buf d = (r, d') \<Longrightarrow> faithful {} d r d'"
  by (auto simp: dev_read_cases faithful_def less_Suc_eq split: outcome.splits)

lemma data_phase_faithful:
  assumes "data_phase direction data s d = (r, b, d')"
  shows "faithful {} d r d'"
proof (cases "data = []")
  case True
  with assms show ?thesis by (auto simp: data_phase_def intro: faithful_stop)
next
  case False
  show ?thesis
  proof (cases "direction = DIR_IN")
    case True
    obtain r1 d1 where 1: "dev_read (in_ep s) data d = (r1, d1)"
      by (cases "dev_read (in_ep s) data d")
    from dev_read_faithful [OF 1] have "faithful {} d r1 d1" .
    with assms False True 1 show ?thesis
      by (cases r1) (auto simp: data_phase_def faithful_def)
  next
    case dir: False
    obtain r1 d1 where 1: "dev_write (out_ep s) data d = (r1, d1)"
      by (cases "dev_write (out_ep s) data d")
    from dev_write_faithful [OF 1] have "faithful {} d r1 d1" .
    with assms False dir 1 show ?thesis
      by (cases r1) (auto simp: data_phase_def faithful_def)
  qed
qed

lemma scsi_command_faithful:
  assumes c: "scsi_command direction command data s d = (r, b, s', d')"
  shows "faithful {} d r d'"
proof (cases "length (cbw s) < 15 \<or> 2 ^ 32 \<le> length data \<or> 256 \<le> length command")
  case True
  with c show ?thesis by (auto simp: scsi_command_unfold intro: faithful_stop)
next
  case False
  let ?s1 = "s\<lparr>cbw := cbw_wire (cbw s) direction command (length data)\<rparr>"
  obtain r1 d1 where 1: "dev_write (out_ep s) (cbw ?s1) d = (r1, d1)"
    by (cases "dev_write (out_ep s) (cbw ?s1) d")
  note f1 = dev_write_faithful [OF 1]
  show ?thesis
  proof (cases r1)
    case (Inl x)
    with c False 1 have "r = Inl x" "d' = d1" by (auto simp: scsi_command_unfold Let_def)
    with f1 Inl show ?thesis by (auto intro: faithful_Inl)
  next
    case (Inr u)
    obtain r2 b2 d2 where 2: "data_phase direction data s d1 = (r2, b2, d2)"
      by (cases "data_phase direction data s d1")
    note f2 = faithful_seq [OF f1 [unfolded Inr] data_phase_faithful [OF 2]]
    show ?thesis
    proof (cases r2)
      case (Inl x)
      with c False 1 Inr 2 have "r = Inl x" "d' = d2"
        by (auto simp: scsi_command_unfold Let_def)
      with f2 Inl show ?thesis by (auto intro: faithful_Inl)
    next
      case r2: (Inr u2)
      obtain r3 d3 where 3: "dev_read (in_ep s) (csw s) d2 = (r3, d3)"
        by (cases "dev_read (in_ep s) (csw s) d2")
      note f3 = faithful_seq [OF f2 [unfolded r2] dev_read_faithful [OF 3]]
      show ?thesis
      proof (cases r3)
        case (Inl x)
        with c False 1 Inr 2 r2 3 have "r = Inl x" "d' = d3"
          by (auto simp: scsi_command_unfold Let_def)
        with f3 Inl show ?thesis by (auto intro: faithful_Inl)
      next
        case r3: (Inr y)
        with c False 1 Inr 2 r2 3 have "r = Inr ()" "d' = d3"
          by (auto simp: scsi_command_unfold Let_def)
        with f3 r3 show ?thesis by (auto intro: faithful_result)
      qed
    qed
  qed
qed

lemma wait_loop_faithful:
  "wait_loop tries try_num test_ready sense sense_response s d = (res, s', d') \<Longrightarrow>
   faithful {} d res d'"
proof (induction tries try_num test_ready sense sense_response s d arbitrary: res s' d'
    rule: wait_loop.induct)
  case (1 tries try_num test_ready sense r s d)
  note unf = wait_loop.simps [of tries try_num test_ready sense r s d]
  show ?case
  proof (cases "csw s ! 12 \<noteq> 0 \<and> try_num < tries")
    case False
    then have "wait_loop tries try_num test_ready sense r s d = (Inr (), s, d)"
      by (auto simp: unf)
    with "1.prems" show ?thesis by (auto intro: faithful_stop)
  next
    case True
    obtain r1 b1 s1 d1 where a: "scsi_command DIR_IN sense r s d = (r1, b1, s1, d1)"
      by (metis prod_cases4)
    note f1 = scsi_command_faithful [OF a]
    show ?thesis
    proof (cases r1)
      case (Inl x)
      with True a have "wait_loop tries try_num test_ready sense r s d = (Inl x, s1, d1)"
        by (simp add: unf)
      with "1.prems" f1 Inl show ?thesis by (auto intro: faithful_Inl)
    next
      case (Inr u)
      obtain r2 b2 s2 d2 where b: "scsi_command DIR_OUT test_ready [] s1 d1 = (r2, b2, s2, d2)"
        by (metis prod_cases4)
      note f2 = faithful_seq [OF f1 [unfolded Inr] scsi_command_faithful [OF b]]
      show ?thesis
      proof (cases r2)
        case (Inl x)
        with True a Inr b
        have "wait_loop tries try_num test_ready sense r s d = (Inl x, s2, d2)"
          by (simp add: unf)
        with "1.prems" f2 Inl show ?thesis by (auto intro: faithful_Inl)
      next
        case r2: (Inr u2)
        from "1.prems" True a Inr b r2
        have w: "wait_loop tries (try_num + 1) test_ready sense b1 s2 d2 = (res, s', d')"
          by (simp add: unf)
        have "faithful {} d2 res d'"
          by (rule "1.IH" [OF True a [symmetric] Inr refl refl b [symmetric] r2 refl refl w])
        with f2 [unfolded r2] show ?thesis by (rule faithful_seq)
      qed
    qed
  qed
qed

lemma wait_for_ready_faithful:
  assumes "wait_for_ready tries s d = (res, s', d')"
  shows "faithful {} d res d'"
proof (cases "length (csw s) \<le> 12 \<or> lun s < 0 \<or> 256 \<le> lun s")
  case True
  with assms show ?thesis
    by (auto simp: wait_for_ready_def Let_def split: if_splits intro: faithful_stop)
next
  case False
  let ?s0 = "s\<lparr>csw := (csw s)[12 := 1]\<rparr>"
  obtain r1 b1 s1 d1 where
    a: "scsi_command DIR_OUT (test_ready_command (lun s)) [] ?s0 d = (r1, b1, s1, d1)"
    by (metis prod_cases4)
  note f1 = scsi_command_faithful [OF a]
  show ?thesis
  proof (cases r1)
    case (Inl x)
    with assms False a have "res = Inl x" "d' = d1"
      by (auto simp: wait_for_ready_def Let_def)
    with f1 Inl show ?thesis by (auto intro: faithful_Inl)
  next
    case (Inr u)
    obtain r2 s2 d2 where
      b: "wait_loop tries 0 (test_ready_command (lun s)) sense_command (replicate 18 0) s1 d1
            = (r2, s2, d2)"
      by (metis prod_cases3)
    note f2 = faithful_seq [OF f1 [unfolded Inr] wait_loop_faithful [OF b]]
    show ?thesis
    proof (cases r2)
      case (Inl x)
      with assms False a Inr b have "res = Inl x" "d' = d2"
        by (auto simp: wait_for_ready_def Let_def)
      with f2 Inl show ?thesis by (auto intro: faithful_Inl)
    next
      case r2: (Inr y)
      with assms False a Inr b have "d' = d2" "\<forall>k. res \<noteq> Inl (USBError k)"
        by (auto simp: wait_for_ready_def Let_def split: if_splits)
      with f2 r2 show ?thesis by (auto intro: faithful_result)
    qed
  qed
qed

lemma inquire_faithful:
  assumes "inquire s d = (res, s', d')"
  shows "faithful {} d res d'"
proof -
  obtain r1 b1 s1 d1 where
    a: "scsi_command DIR_IN inquiry_command (replicate 36 0) s d = (r1, b1, s1, d1)"
    by (metis prod_cases4)
  with assms have "res = r1" "d' = d1" by (auto simp: inquire_def)
  with scsi_command_faithful [OF a] show ?thesis by simp
qed

lemma set_configuration_faithful:
  "set_configuration v d = (r, d') \<Longrightarrow> length (log d) \<notin> X \<Longrightarrow> faithful X d r d'"
  by (auto simp: set_configuration_cases faithful_def less_Suc_eq split: outcome.splits)

lemma faithful_skip:
  "faithful X d (Inr x) d1 \<Longrightarrow> length (log d1) \<in> X \<Longrightarrow>
     faithful X d (Inr y) (d1\<lparr>log := log d1 @ [t]\<rparr>)"
  unfolding faithful_def by (auto simp: less_Suc_eq)

lemma faithful_length: "faithful X d r d' \<Longrightarrow> length (log d) \<le> length (log d')"
  by (auto simp: faithful_def dest: prefix_length_le)

lemma init_session_faithful:
  assumes run: "init_session st lun0 d = (r, d')"
  shows "faithful {Suc (length (log d))} d r d'"
proof -
  let ?X = "{Suc (length (log d))}"
  obtain r1 d1 where 1: "set_configuration (config_value st) d = (r1, d1)"
    by (cases "set_configuration (config_value st) d")
  have f1: "faithful ?X d r1 d1" by (rule set_configuration_faithful [OF 1]) simp
  from 1 have l1: "log d1 = log d @ [SetConfiguration (config_value st)]"
    by (auto simp: set_configuration_cases split: outcome.splits)
  show ?thesis
  proof (cases r1)
    case (Inl x)
    with run 1 have "r = Inl x" "d' = d1" by (simp_all add: init_session_def)
    with f1 Inl show ?thesis by (auto intro: faithful_Inl)
  next
    case (Inr u)
    show ?thesis
    proof (cases "msc_interface st")
      case None
      with run 1 Inr have "r = Inl TypeError" "d' = d1" by (simp_all add: init_session_def)
      with f1 Inr show ?thesis by (auto intro: faithful_result)
    next
      case (Some ix)
      let ?d2 = "d1\<lparr>log := log d1 @ [CtrlTransfer 0xA1 254 0 ix 1]\<rparr>"
      from get_max_lun_total [of ix d1] obtain m where 3: "get_max_lun ix d1 = (Inr m, ?d2)"
        by blast
      have "length (log d1) \<in> ?X" using l1 by simp
      with f1 [unfolded Inr] have f2: "faithful ?X d (Inr m) ?d2" by (rule faithful_skip)
      have wide: "\<forall>j\<in>?X. j < length (log ?d2)" using l1 by simp
      have eq: "init_session st lun0 d =
        (if lun0 < 0 \<or> 256 \<le> lun0 then (Inl ValueError_byte_range, ?d2)
         else (case inquire (new_session st lun0) ?d2 of
                 (Inl e, s3, d3) \<Rightarrow> (Inl e, d3)
               | (Inr u, s3, d3) \<Rightarrow>
                 (case wait_for_ready 100 s3 d3 of
                    (Inl e, s4, d4) \<Rightarrow> (Inl e, d4)
                  | (Inr u, s4, d4) \<Rightarrow> (Inr s4, d4))))"
        by (simp add: init_session_def 1 Inr Some 3)
      show ?thesis
      proof (cases "lun0 < 0 \<or> 256 \<le> lun0")
        case True
        with run eq have "r = Inl ValueError_byte_range" "d' = ?d2" by simp_all
        with f2 show ?thesis by (auto intro: faithful_result)
      next
        case False
        obtain r3 s3 d3 where 5: "inquire (new_session st lun0) ?d2 = (r3, s3, d3)"
          by (metis prod_cases3)
        note f3 = faithful_seq [OF f2 faithful_widen [OF inquire_faithful [OF 5] wide]]
        from faithful_length [OF inquire_faithful [OF 5]]
        have l3: "length (log ?d2) \<le> length (log d3)" .
        show ?thesis
        proof (cases r3)
          case (Inl x)
          with run eq False 5 have "r = Inl x" "d' = d3" by simp_all
          with f3 Inl show ?thesis by (auto intro: faithful_Inl)
        next
          case r3: (Inr u3)
          obtain r4 s4 d4 where 7: "wait_for_ready 100 s3 d3 = (r4, s4, d4)"
            by (metis prod_cases3)
          have wide3: "\<forall>j\<in>?X. j < length (log d3)" using l3 l1 by simp
          note f4 = faithful_seq [OF f3 [unfolded r3]
              faithful_widen [OF wait_for_ready_faithful [OF 7] wide3]]
          show ?thesis
          proof (cases r4)
            case (Inl x)
            with run eq False 5 r3 7 have "r = Inl x" "d' = d4" by simp_all
            with f4 Inl show ?thesis by (auto intro: faithful_Inl)
          next
            case r4: (Inr u4)
            with run eq False 5 r3 7 have "r = Inr s4" "d' = d4" by simp_all
            with f4 r4 show ?thesis by (auto intro: faithful_result)
          qed
        qed
      qed
    qed
  qed
qed

lemma init_session_second_transfer:
  assumes run: "init_session st lun0 d = (r, d')"
    and len: "Suc (length (log d)) < length (log d')"
  shows "\<exists>ix. log d' ! Suc (length (log d)) = CtrlTransfer 0xA1 254 0 ix 1"
proof -
  obtain r1 d1 where 1: "set_configuration (config_value st) d = (r1, d1)"
    by (cases "set_configuration (config_value st) d")
  from 1 have l1: "log d1 = log d @ [SetConfiguration (config_value st)]"
    by (auto simp: set_configuration_cases split: outcome.splits)
  show ?thesis
  proof (cases r1)
    case (Inl x)
    with run 1 have "d' = d1" by (simp add: init_session_def)
    with l1 len show ?thesis by simp
  next
    case (Inr u)
    show ?thesis
    proof (cases "msc_interface st")
      case None
      with run 1 Inr have "d' = d1" by (simp add: init_session_def)
      with l1 len show ?thesis by simp
    next
      case (Some ix)
      let ?d2 = "d1\<lparr>log := log d1 @ [CtrlTransfer 0xA1 254 0 ix 1]\<rparr>"
      from get_max_lun_total [of ix d1] obtain m where 3: "get_max_lun ix d1 = (Inr m, ?d2)"
        by blast
      have eq: "init_session st lun0 d =
        (if lun0 < 0 \<or> 256 \<le> lun0 then (Inl ValueError_byte_range, ?d2)
         else (case inquire (new_session st lun0) ?d2 of
                 (Inl e, s3, d3) \<Rightarrow> (Inl e, d3)
               | (Inr u, s3, d3) \<Rightarrow>
                 (case wait_for_ready 100 s3 d3 of
                    (Inl e, s4, d4) \<Rightarrow> (Inl e, d4)
                  | (Inr u, s4, d4) \<Rightarrow> (Inr s4, d4))))"
        by (simp add: init_session_def 1 Inr Some 3)
      have "prefix (log ?d2) (log d')"
      proof (cases "lun0 < 0 \<or> 256 \<le> lun0")
        case True
        with run eq show ?thesis by simp
      next
        case False
        obtain r3 s3 d3 where 5: "inquire (new_session st lun0) ?d2 = (r3, s3, d3)"
          by (metis prod_cases3)
        from inquire_faithful [OF 5] have p3: "prefix (log ?d2) (log d3)"
          by (simp add: faithful_def)
        show ?thesis
        proof (cases r3)
          case (Inl x)
          with run eq False 5 have "d' = d3" by simp
          with p3 show ?thesis by simp
        next
          case r3: (Inr u3)
          obtain r4 s4 d4 where 7: "wait_for_ready 100 s3 d3 = (r4, s4, d4)"
            by (metis prod_cases3)
          from wait_for_ready_faithful [OF 7] have p4: "prefix (log d3) (log d4)"
            by (simp add: faithful_def)
          from run eq False 5 r3 7 have "d' = d4" by (cases r4) simp_all
          with p3 p4 show ?thesis by (auto intro: prefix_order.trans)
        qed
      qed
      then obtain zs where "log d' = log ?d2 @ zs" by (auto simp: prefix_def)
      with l1 have "log d' = log d @ SetConfiguration (config_value st)
                       # CtrlTransfer 0xA1 254 0 ix 1 # zs"
        by simp
      then have "log d' ! Suc (length (log d)) = CtrlTransfer 0xA1 254 0 ix 1"
        by (simp add: nth_append)
      then show ?thesis by blast
    qed
  qed
qed

lemma faithful_failD:
  "faithful X d r d' \<Longrightarrow> length (log d) \<le> j \<Longrightarrow> j < length (log d') \<Longrightarrow> j \<notin> X \<Longrightarrow>
     script d j = Fail k \<Longrightarrow> r = Inl (USBError k) \<and> Suc j = length (log d')"
  unfolding faithful_def by blast

lemma faithful_errorD:
  "faithful X d (Inl (USBError k)) d' \<Longrightarrow>
     length (log d) < length (log d') \<and> length (log d') - 1 \<notin> X
     \<and> script d (length (log d') - 1) = Fail k"
  unfolding faithful_def by blast

lemma construct_thumb_ready:
  "construct thumb_drive_descriptor 0 ready_device =
     Some (Inr \<lparr>in_ep = 0x81, out_ep = 0x02, sector_count = None, block_size = None, lun = 0,
                cbw = [0x55, 0x53, 0x42, 0x43, 0, 0, 0, 0, 0, 0, 0, 0, 0x00, 0, 6,
                       0x00, 0, 0, 0, 0, 0, 0, 0, 0, 0, 0, 0, 0, 0, 0, 0],
                csw = [0, 0, 0, 0, 0, 0, 0, 0, 0, 0, 0, 0, 0]\<rparr>,
           ready_device\<lparr>log :=
             [SetConfiguration 1, CtrlTransfer 0xA1 254 0 0 1,
              BulkWrite 0x02 [0x55, 0x53, 0x42, 0x43, 0, 0, 0, 0, 36, 0, 0, 0, 0x80, 0, 6,
                              0x12, 0, 0, 0, 36, 0, 0, 0, 0, 0, 0, 0, 0, 0, 0, 0],
              BulkRead 0x81 36, BulkRead 0x81 13,
              BulkWrite 0x02 [0x55, 0x53, 0x42, 0x43, 0, 0, 0, 0, 0, 0, 0, 0, 0x00, 0, 6,
                              0x00, 0, 0, 0, 0, 0, 0, 0, 0, 0, 0, 0, 0, 0, 0, 0],
              BulkRead 0x81 13]\<rparr>)"
  by (simp add: construct_def scan_thumb_drive init_session_def new_session_def
      set_configuration_def transfer_def get_max_lun_def wait_loop.simps ctrl_transfer_def
      ready_device_def fill_def
      inquire_def scsi_command_def pack_into_IBxB_def le32_def
      data_phase_def dev_read_def dev_write_def wait_for_ready_def command_bytes
      cbw_template_lun csw_template_eq csw_status_update
      REQ_RCPT_INTERFACE_def REQ_TYPE_CLASS_def DIR_IN_def DIR_OUT_def
      MSC_REQ_GET_GET_MAX_LUN_def Let_def)

subsection \<open>What a command does not look at\<close>

lemma scsi_command_returns:
  assumes dn: "\<forall>j. \<exists>bs. script d j = Done bs"
    and ok: "\<not> (length (cbw s) < 15 \<or> 2 ^ 32 \<le> length data \<or> 256 \<le> length command)"
  shows "fst (scsi_command direction command data s d) = Inr ()"
proof -
  obtain r b s' d' where c: "scsi_command direction command data s d = (r, b, s', d')"
    by (metis prod_cases4)
  have "\<forall>k. r \<noteq> Inl (USBError k)"
  proof (intro allI notI)
    fix k assume "r = Inl (USBError k)"
    with scsi_command_faithful [OF c]
    have "faithful {} d (Inl (USBError k) :: error + unit) d'" by simp
    from faithful_errorD [OF this] dn show False by (metis outcome.distinct(1))
  qed
  moreover from c ok have "r = Inr () \<or> (\<exists>k. r = Inl (USBError k))"
    by (auto simp: scsi_command_unfold Let_def data_phase_def dev_write_cases dev_read_cases
        split: sum.splits prod.splits outcome.splits if_splits)
  ultimately show ?thesis using c by auto
qed

lemma wait_for_ready_ready_device:
  "fst (wait_for_ready 100 capacity_session ready_device) = Inr ()"
proof -
  have c0: "21 \<le> length (cbw capacity_session)" and w0: "length (csw capacity_session) = 13"
    and l: "0 \<le> lun capacity_session" "lun capacity_session < 256"
    by (simp_all add: capacity_session_def)
  have dn: "\<forall>j. \<exists>bs. script ready_device j = Done bs" by (simp add: ready_device_def)
  have st: "\<forall>i\<le>0. csw_status ready_device (length (log ready_device) + 5 * i + 1)
                 = Some ((\<lambda>i. 0) i)"
    by (simp add: csw_status_def ready_device_def csw_status_update)
  have nz: "\<forall>i<(0::nat). (\<lambda>i. 0::byte) i \<noteq> 0 \<and> int i < 100" by simp
  have ex: "(\<lambda>i. 0::byte) 0 = 0 \<or> (100::int) \<le> int 0" by simp
  from wait_for_ready_run [OF c0 w0 l dn st nz ex] show ?thesis by auto
qed

lemma wait_for_ready_never_ready_device:
  "fst (wait_for_ready 100 capacity_session never_ready_device) = Inl RuntimeError_Out_of_tries"
proof -
  have c0: "length (cbw capacity_session) = 31" and w0: "length (csw capacity_session) = 13"
    and l: "0 \<le> lun capacity_session" "lun capacity_session < 256"
    by (simp_all add: capacity_session_def)
  have dn: "\<forall>j. \<exists>bs. script never_ready_device j = Done bs"
    by (simp add: never_ready_device_def)
  have st: "\<forall>k\<le>nat 100. \<exists>v. csw_status never_ready_device
              (length (log never_ready_device) + 5 * k + 1) = Some v \<and> v \<noteq> 0"
    by (simp add: csw_status_def never_ready_device_def csw_status_update)
  from wait_for_ready_exhausted [OF c0 w0 l dn st] show ?thesis by auto
qed

lemma but_csw_simps [simp]:
  "but_csw (s\<lparr>csw := c\<rparr>) = but_csw s"
  "but_csw (s\<lparr>cbw := c\<rparr>) = (but_csw s)\<lparr>cbw := c\<rparr>"
  "but_csw (s\<lparr>sector_count := a\<rparr>) = (but_csw s)\<lparr>sector_count := a\<rparr>"
  "but_csw (s\<lparr>block_size := b\<rparr>) = (but_csw s)\<lparr>block_size := b\<rparr>"
  by (simp_all add: but_csw_def)

lemma scsi_command_result:
  assumes sf: "same_failures d e"
  shows "fst (scsi_command direction command data (s\<lparr>csw := c\<rparr>) e)
           = fst (scsi_command direction command data s d)"
proof -
  let ?n = "length (log d)"
  from sf have l: "log e = log d"
    and a: "case script d j of Fail k \<Rightarrow> script e j = Fail k
                             | Done bs \<Rightarrow> (\<exists>bs'. script e j = Done bs')" for j
    by (auto simp: same_failures_def)
  note a0 = a [of ?n] and a1 = a [of "Suc ?n"] and a2 = a [of "Suc (Suc ?n)"]
  show ?thesis
    using a0 a1 a2 l
    by (auto simp: scsi_command_unfold Let_def data_phase_def dev_write_cases dev_read_cases
        split: outcome.splits)
qed

lemma scsi_command_control:
  assumes sf: "same_failures d e" and lc: "length c = length (csw s)"
  shows "fst (scsi_command direction command data (s\<lparr>csw := c\<rparr>) e)
           = fst (scsi_command direction command data s d)"
    and "log (snd (snd (snd (scsi_command direction command data (s\<lparr>csw := c\<rparr>) e))))
           = log (snd (snd (snd (scsi_command direction command data s d))))"
proof -
  let ?n = "length (log d)"
  from sf have l: "log e = log d"
    and a: "case script d j of Fail k \<Rightarrow> script e j = Fail k
                             | Done bs \<Rightarrow> (\<exists>bs'. script e j = Done bs')" for j
    by (auto simp: same_failures_def)
  note a0 = a [of ?n] and a1 = a [of "Suc ?n"] and a2 = a [of "Suc (Suc ?n)"]
  show "fst (scsi_command direction command data (s\<lparr>csw := c\<rparr>) e)
           = fst (scsi_command direction command data s d)"
    by (rule scsi_command_result [OF sf])
  show "log (snd (snd (snd (scsi_command direction command data (s\<lparr>csw := c\<rparr>) e))))
           = log (snd (snd (snd (scsi_command direction command data s d))))"
    using a0 a1 a2 l lc
    by (auto simp: scsi_command_unfold Let_def data_phase_def dev_write_cases dev_read_cases
        split: outcome.splits)
qed

lemma scsi_command_data:
  assumes sb: "same_but_at (csw_position data d) d e"
  shows "fst (snd (scsi_command direction command data (s\<lparr>csw := c\<rparr>) e))
           = fst (snd (scsi_command direction command data s d))"
    and "but_csw (fst (snd (snd (scsi_command direction command data (s\<lparr>csw := c\<rparr>) e))))
           = but_csw (fst (snd (snd (scsi_command direction command data s d))))"
proof -
  let ?n = "length (log d)"
  from sb have l: "log e = log d"
    and a: "case script d j of Fail k \<Rightarrow> script e j = Fail k
                             | Done bs \<Rightarrow> (\<exists>bs'. script e j = Done bs')" for j
    by (auto simp: same_failures_def same_but_at_def)
  from sb have b0: "script e ?n = script d ?n"
    and b1: "data \<noteq> [] \<Longrightarrow> script e (Suc ?n) = script d (Suc ?n)"
    by (simp_all add: same_but_at_def csw_position_def)
  note a1 = a [of "Suc ?n"] and a2 = a [of "Suc (Suc ?n)"]
  show "fst (snd (scsi_command direction command data (s\<lparr>csw := c\<rparr>) e))
           = fst (snd (scsi_command direction command data s d))"
    using b0 b1 a1 a2 l
    by (auto simp: scsi_command_unfold Let_def data_phase_def dev_write_cases dev_read_cases
        split: outcome.splits)
  show "but_csw (fst (snd (snd (scsi_command direction command data (s\<lparr>csw := c\<rparr>) e))))
           = but_csw (fst (snd (snd (scsi_command direction command data s d))))"
    using b0 b1 a1 a2 l
    by (auto simp: scsi_command_unfold Let_def data_phase_def dev_write_cases dev_read_cases
        split: outcome.splits)
qed

lemma scsi_command_length:
  "length (fst (snd (scsi_command direction command data s d))) = length data"
  by (auto simp: scsi_command_unfold Let_def data_phase_def dev_write_cases dev_read_cases
        split: outcome.splits)


lemma read_capacity_unfold:
  "read_capacity s d =
     (case scsi_command DIR_IN read_capacity_command (replicate 8 0) s d of
        (r, resp, s', d') \<Rightarrow>
          (case r of
             Inl x \<Rightarrow> (Inl x, s', d')
           | Inr u \<Rightarrow> (Inr (), s'\<lparr>sector_count := Some (be_int (take 4 resp) + 1),
                                   block_size := Some (be_int (drop 4 resp))\<rparr>, d')))"
  using scsi_command_length [of DIR_IN read_capacity_command "replicate 8 0" s d]
  by (auto simp: read_capacity_def unpack_II_def split: prod.splits sum.splits)

lemma read_capacity_projections:
  "fst (read_capacity s d)
     = fst (scsi_command DIR_IN read_capacity_command (replicate 8 0) s d)"
  "log (snd (snd (read_capacity s d)))
     = log (snd (snd (snd (scsi_command DIR_IN read_capacity_command (replicate 8 0) s d))))"
  by (auto simp: read_capacity_unfold split: prod.splits sum.splits)

lemma inquire_projections:
  "fst (inquire s d) = fst (scsi_command DIR_IN inquiry_command (replicate 36 0) s d)"
  "fst (snd (inquire s d))
     = fst (snd (snd (scsi_command DIR_IN inquiry_command (replicate 36 0) s d)))"
  "snd (snd (inquire s d))
     = snd (snd (snd (scsi_command DIR_IN inquiry_command (replicate 36 0) s d)))"
  by (simp_all add: inquire_def split: prod.splits)

lemma readblocks_control:
  assumes sf: "same_failures d e" and lc: "length c = length (csw s)"
  shows "fst (readblocks N buf (s\<lparr>csw := c\<rparr>) e) = fst (readblocks N buf s d)"
    and "log (snd (snd (snd (readblocks N buf (s\<lparr>csw := c\<rparr>) e))))
           = log (snd (snd (snd (readblocks N buf s d))))"
  using sf scsi_command_control [OF sf lc]
  by (auto simp: readblocks_def same_failures_def split: sum.splits)

lemma writeblocks_control:
  assumes sf: "same_failures d e" and lc: "length c = length (csw s)"
  shows "fst (writeblocks N buf (s\<lparr>csw := c\<rparr>) e) = fst (writeblocks N buf s d)"
    and "log (snd (snd (snd (writeblocks N buf (s\<lparr>csw := c\<rparr>) e))))
           = log (snd (snd (snd (writeblocks N buf s d))))"
  using sf scsi_command_control [OF sf lc]
  by (auto simp: writeblocks_def same_failures_def split: sum.splits)

lemma inquire_control:
  assumes sf: "same_failures d e" and lc: "length c = length (csw s)"
  shows "fst (inquire (s\<lparr>csw := c\<rparr>) e) = fst (inquire s d)"
    and "log (snd (snd (inquire (s\<lparr>csw := c\<rparr>) e))) = log (snd (snd (inquire s d)))"
  using scsi_command_control [OF sf lc] by (simp_all add: inquire_projections)

lemma read_capacity_control:
  assumes sf: "same_failures d e" and lc: "length c = length (csw s)"
  shows "fst (read_capacity (s\<lparr>csw := c\<rparr>) e) = fst (read_capacity s d)"
    and "log (snd (snd (read_capacity (s\<lparr>csw := c\<rparr>) e)))
           = log (snd (snd (read_capacity s d)))"
  using scsi_command_control [OF sf lc] by (simp_all add: read_capacity_projections)

lemma readblocks_data:
  assumes sb: "same_but_at (csw_position buf d) d e"
  shows "fst (snd (readblocks N buf (s\<lparr>csw := c\<rparr>) e)) = fst (snd (readblocks N buf s d))"
    and "but_csw (fst (snd (snd (readblocks N buf (s\<lparr>csw := c\<rparr>) e))))
           = but_csw (fst (snd (snd (readblocks N buf s d))))"
  using scsi_command_data [OF sb]
  by (auto simp: readblocks_def split: sum.splits)

lemma writeblocks_data:
  assumes sb: "same_but_at (csw_position buf d) d e"
  shows "fst (snd (writeblocks N buf (s\<lparr>csw := c\<rparr>) e)) = fst (snd (writeblocks N buf s d))"
    and "but_csw (fst (snd (snd (writeblocks N buf (s\<lparr>csw := c\<rparr>) e))))
           = but_csw (fst (snd (snd (writeblocks N buf s d))))"
  using scsi_command_data [OF sb]
  by (auto simp: writeblocks_def split: sum.splits)

lemma inquire_data:
  assumes sb: "same_but_at (length (log d) + 2) d e"
  shows "but_csw (fst (snd (inquire (s\<lparr>csw := c\<rparr>) e))) = but_csw (fst (snd (inquire s d)))"
proof -
  from sb have "same_but_at (csw_position (replicate 36 (0::byte)) d) d e"
    by (simp add: csw_position_def)
  from scsi_command_data(2) [OF this] show ?thesis by (simp add: inquire_projections)
qed

lemma read_capacity_data:
  assumes sb: "same_but_at (length (log d) + 2) d e"
  shows "but_csw (fst (snd (read_capacity (s\<lparr>csw := c\<rparr>) e)))
           = but_csw (fst (snd (read_capacity s d)))"
proof -
  let ?A = "scsi_command DIR_IN read_capacity_command (replicate 8 0) (s\<lparr>csw := c\<rparr>) e"
  let ?B = "scsi_command DIR_IN read_capacity_command (replicate 8 0) s d"
  from sb have p: "same_but_at (csw_position (replicate 8 (0::byte)) d) d e"
    by (simp add: csw_position_def)
  from sb have "same_failures d e" by (simp add: same_but_at_def)
  from scsi_command_result [OF this, where direction = DIR_IN
        and command = read_capacity_command and data = "replicate 8 0" and s = s and c = c]
    scsi_command_data [OF p, of DIR_IN read_capacity_command c s]
  have "fst ?A = fst ?B" "fst (snd ?A) = fst (snd ?B)"
    "but_csw (fst (snd (snd ?A))) = but_csw (fst (snd (snd ?B)))"
    by simp_all
  then show ?thesis
    by (cases ?A; cases ?B) (auto simp: read_capacity_unfold split: sum.splits)
qed

lemma readblocks_returns:
  assumes dn: "\<forall>j. \<exists>bs. script d j = Done bs" and c: "15 \<le> length (cbw s)"
    and l: "0 \<le> lun s" "lun s < 256" and n: "0 \<le> N" "N < 2 ^ 32"
    and k: "int (length buf) div 512 < 2 ^ 16"
  shows "fst (readblocks N buf s d) = Inr ()" and "fst (writeblocks N buf s d) = Inr ()"
proof -
  from k have b: "length buf < 2 ^ 32" by simp
  have p: "pack_into_BBIxH opcode (lun s) N (int (length buf) div 512)
      = Inr ([opcode, of_int (lun s)] @ be32 N @ [0] @ be16 (int (length buf) div 512) @ [0])"
    for opcode
    using l n k by (simp add: pack_into_BBIxH_def)
  have ret: "fst (scsi_command direction cm buf s d) = Inr ()" if "length cm < 256"
    for direction cm
    by (rule scsi_command_returns [OF dn]) (use that b c in simp)
  show "fst (readblocks N buf s d) = Inr ()"
    unfolding readblocks_def p by (simp add: ret be32_def be16_def)
  show "fst (writeblocks N buf s d) = Inr ()"
    unfolding writeblocks_def p by (simp add: ret be32_def be16_def)
qed

lemma inquire_returns:
  assumes dn: "\<forall>j. \<exists>bs. script d j = Done bs" and c: "15 \<le> length (cbw s)"
  shows "fst (inquire s d) = Inr ()" and "fst (read_capacity s d) = Inr ()"
proof -
  have ret: "fst (scsi_command direction cm b s d) = Inr ()"
    if "length cm < 256" "length b < 2 ^ 32" for direction cm b
    by (rule scsi_command_returns [OF dn]) (use that c in simp)
  show "fst (inquire s d) = Inr ()"
    by (simp add: inquire_projections ret)
  show "fst (read_capacity s d) = Inr ()"
    by (simp add: read_capacity_projections ret)
qed

subsection \<open>The scanning loop and the records of the descriptor\<close>

lemma desc_types_distinct:
  "DESC_CONFIGURATION \<noteq> DESC_INTERFACE" "DESC_CONFIGURATION \<noteq> DESC_ENDPOINT"
  "DESC_INTERFACE \<noteq> DESC_ENDPOINT"
  by (simp_all add: DESC_CONFIGURATION_def DESC_INTERFACE_def DESC_ENDPOINT_def)

lemma getitem_record:
  "k < length r \<Longrightarrow> getitem (pre @ r @ rest) (length pre + k) = Inr (r ! k)"
  by (simp add: getitem_def nth_append)

lemma scan_record_spec:
  assumes "wf_record r"
  shows "scan_record (pre @ r @ rest) (length pre) st = Inr (spec_record r st)"
proof -
  let ?cd = "pre @ r @ rest"
  from assms have l: "2 \<le> length r" by (simp add: wf_record_def)
  then have g1: "getitem ?cd (length pre + 1) = Inr (r ! 1)" by (intro getitem_record) simp
  show ?thesis
  proof (cases "is_configuration r")
    case True
    with assms have "5 < length r" by (simp add: wf_record_def)
    then have "getitem ?cd (length pre + 5) = Inr (r ! 5)" by (rule getitem_record)
    with True g1 show ?thesis
      by (simp add: scan_record_def spec_record_def is_configuration_def)
  next
    case nc: False
    show ?thesis
    proof (cases "is_interface r")
      case True
      with assms have "2 < length r" "5 < length r" "6 < length r"
        by (simp_all add: wf_record_def)
      then have "getitem ?cd (length pre + 2) = Inr (r ! 2)"
        "getitem ?cd (length pre + 5) = Inr (r ! 5)"
        "getitem ?cd (length pre + 6) = Inr (r ! 6)"
        by (simp_all only: getitem_record)
      with True nc g1 show ?thesis
        by (simp add: scan_record_def spec_record_def is_configuration_def is_interface_def
            is_msc_interface_def)
    next
      case ni: False
      show ?thesis
      proof (cases "is_endpoint r")
        case True
        with assms have "2 < length r" by (simp add: wf_record_def)
        then have "getitem ?cd (length pre + 2) = Inr (r ! 2)" by (rule getitem_record)
        with True nc ni g1 show ?thesis
          by (simp add: scan_record_def spec_record_def is_configuration_def is_interface_def
              is_endpoint_def is_in_endpoint_def DIR_IN_def)
      next
        case False
        with nc ni g1 show ?thesis
          by (simp add: scan_record_def spec_record_def is_configuration_def is_interface_def
              is_endpoint_def)
      qed
    qed
  qed
qed

lemma record_length_byte:
  assumes "wf_record r"
  shows "unat ((pre @ r @ rest) ! length pre) = length r"
proof -
  from assms have "0 < length r" "length r < 256" "r ! 0 = of_nat (length r)"
    by (auto simp: wf_record_def)
  then show ?thesis
    by (simp add: nth_append unat_of_nat)
qed

lemma scan_loop_records:
  "\<forall>r\<in>set recs. wf_record r \<Longrightarrow>
     scan_loop (pre @ concat recs) (length pre) st = Some (Inr (fold spec_record recs st))"
proof (induction recs arbitrary: pre st)
  case Nil
  show ?case by (subst scan_loop.simps) simp
next
  case (Cons r rs)
  then have wf: "wf_record r" and wfs: "\<forall>r\<in>set rs. wf_record r" by simp_all
  from wf have l: "0 < length r" by (auto simp: wf_record_def)
  have cd: "pre @ concat (r # rs) = pre @ r @ concat rs" by simp
  have "scan_loop (pre @ r @ concat rs) (length pre) st
      = scan_loop (pre @ r @ concat rs) (length pre + length r) (spec_record r st)"
    using l by (subst scan_loop.simps)
      (simp add: scan_record_spec [OF wf] record_length_byte [OF wf])
  also have "\<dots> = scan_loop ((pre @ r) @ concat rs) (length (pre @ r)) (spec_record r st)"
    by simp
  also have "\<dots> = Some (Inr (fold spec_record rs (spec_record r st)))"
    by (rule Cons.IH [OF wfs])
  finally show ?case by (simp only: cd fold_simps)
qed

lemma scan_loop_spec_scan:
  "\<forall>r\<in>set recs. wf_record r \<Longrightarrow>
     scan_loop (concat recs) 0 scan_init = Some (Inr (spec_scan recs))"
  using scan_loop_records [of recs "[]" scan_init] by (simp add: spec_scan_def)

lemma record_kinds:
  "is_configuration r \<Longrightarrow> \<not> is_interface r"
  "is_configuration r \<Longrightarrow> \<not> is_endpoint r"
  "is_interface r \<Longrightarrow> \<not> is_endpoint r"
  "is_msc_interface r \<Longrightarrow> is_interface r"
  "is_in_endpoint r \<Longrightarrow> is_endpoint r"
  "is_out_endpoint r \<Longrightarrow> is_endpoint r"
  "is_endpoint r \<Longrightarrow> is_out_endpoint r = (\<not> is_in_endpoint r)"
  by (auto simp: is_configuration_def is_interface_def is_endpoint_def is_msc_interface_def
      is_in_endpoint_def is_out_endpoint_def desc_types_distinct)

lemma fold_config_value:
  "config_value (fold spec_record recs st) =
     (if filter is_configuration recs = [] then config_value st
      else last (filter is_configuration recs) ! 5)"
proof (induction recs arbitrary: st)
  case Nil
  show ?case by simp
next
  case (Cons r rs)
  have "config_value (spec_record r st) = (if is_configuration r then r ! 5 else config_value st)"
    by (simp add: spec_record_def)
  then show ?case
    by (cases "is_configuration r") (simp_all add: Cons.IH)
qed

lemma fold_outside:
  "\<not> in_msc_interface st \<Longrightarrow> \<forall>r\<in>set xs. \<not> is_msc_interface r \<Longrightarrow>
     \<not> in_msc_interface (fold spec_record xs st)
     \<and> msc_interface (fold spec_record xs st) = msc_interface st
     \<and> scan_in_ep (fold spec_record xs st) = scan_in_ep st
     \<and> scan_out_ep (fold spec_record xs st) = scan_out_ep st"
proof (induction xs arbitrary: st)
  case Nil
  then show ?case by simp
next
  case (Cons r rs)
  from Cons.prems have 1: "\<not> in_msc_interface (spec_record r st)"
    and 2: "msc_interface (spec_record r st) = msc_interface st"
    and 3: "scan_in_ep (spec_record r st) = scan_in_ep st"
    and 4: "scan_out_ep (spec_record r st) = scan_out_ep st"
    by (simp_all add: spec_record_def)
  from Cons.prems have "\<forall>r\<in>set rs. \<not> is_msc_interface r" by simp
  from Cons.IH [OF 1 this] 2 3 4 show ?case by simp
qed

lemma fold_inside:
  "in_msc_interface st \<Longrightarrow> \<forall>r\<in>set xs. \<not> is_interface r \<Longrightarrow>
     in_msc_interface (fold spec_record xs st)
     \<and> msc_interface (fold spec_record xs st) = msc_interface st
     \<and> scan_in_ep (fold spec_record xs st) =
         (if filter is_in_endpoint xs = [] then scan_in_ep st
          else last (filter is_in_endpoint xs) ! 2)
     \<and> scan_out_ep (fold spec_record xs st) =
         (if filter is_out_endpoint xs = [] then scan_out_ep st
          else last (filter is_out_endpoint xs) ! 2)"
proof (induction xs arbitrary: st)
  case Nil
  then show ?case by simp
next
  case (Cons r rs)
  from Cons.prems have ni: "\<not> is_interface r" and rest: "\<forall>r\<in>set rs. \<not> is_interface r"
    by simp_all
  from Cons.prems(1) ni have 1: "in_msc_interface (spec_record r st)"
    and 2: "msc_interface (spec_record r st) = msc_interface st"
    by (simp_all add: spec_record_def)
  note IH = Cons.IH [OF 1 rest]
  show ?case
  proof (cases "is_endpoint r")
    case True
    then have nc: "\<not> is_configuration r" using record_kinds(2) by blast
    show ?thesis
    proof (cases "is_in_endpoint r")
      case i: True
      with True have o: "\<not> is_out_endpoint r" by (simp add: record_kinds(7))
      from True nc ni i Cons.prems(1)
      have "scan_in_ep (spec_record r st) = r ! 2"
        "scan_out_ep (spec_record r st) = scan_out_ep st"
        by (simp_all add: spec_record_def)
      with IH 2 i o show ?thesis by simp
    next
      case i: False
      with True have o: "is_out_endpoint r" by (simp add: record_kinds(7))
      from True nc ni i Cons.prems(1)
      have "scan_out_ep (spec_record r st) = r ! 2"
        "scan_in_ep (spec_record r st) = scan_in_ep st"
        by (simp_all add: spec_record_def)
      with IH 2 i o show ?thesis by simp
    qed
  next
    case False
    then have i: "\<not> is_in_endpoint r" and o: "\<not> is_out_endpoint r"
      using record_kinds(5,6) by blast+
    from False ni have "scan_in_ep (spec_record r st) = scan_in_ep st"
      "scan_out_ep (spec_record r st) = scan_out_ep st"
      by (simp_all add: spec_record_def)
    with IH 2 i o show ?thesis by simp
  qed
qed

lemma fold_endpoints:
  "(scan_in_ep (fold spec_record xs st) = scan_in_ep st
      \<or> (scan_in_ep (fold spec_record xs st) \<in> set (msc_endpoints (in_msc_interface st) xs)
         \<and> scan_in_ep (fold spec_record xs st) AND 0x80 \<noteq> 0))
   \<and> (scan_out_ep (fold spec_record xs st) = scan_out_ep st
      \<or> (scan_out_ep (fold spec_record xs st) \<in> set (msc_endpoints (in_msc_interface st) xs)
         \<and> scan_out_ep (fold spec_record xs st) AND 0x80 = 0))"
proof (induction xs arbitrary: st)
  case Nil
  show ?case by simp
next
  case (Cons r rs)
  note IH = Cons.IH [of "spec_record r st"]
  show ?case
  proof (cases "is_interface r")
    case True
    then have "\<not> is_configuration r" using record_kinds(1) by blast
    with True have "in_msc_interface (spec_record r st) = is_msc_interface r"
      "scan_in_ep (spec_record r st) = scan_in_ep st"
      "scan_out_ep (spec_record r st) = scan_out_ep st"
      by (simp_all add: spec_record_def)
    with IH True show ?thesis by simp
  next
    case ni: False
    show ?thesis
    proof (cases "is_endpoint r \<and> in_msc_interface st")
      case True
      then have nc: "\<not> is_configuration r" using record_kinds(2) by blast
      from True nc ni have f: "in_msc_interface (spec_record r st) = in_msc_interface st"
        by (simp add: spec_record_def)
      show ?thesis
      proof (cases "is_in_endpoint r")
        case i: True
        with True nc ni have "scan_in_ep (spec_record r st) = r ! 2"
          "scan_out_ep (spec_record r st) = scan_out_ep st"
          by (simp_all add: spec_record_def)
        with IH f True ni i show ?thesis
          by (auto simp: is_in_endpoint_def)
      next
        case i: False
        with True nc ni have "scan_out_ep (spec_record r st) = r ! 2"
          "scan_in_ep (spec_record r st) = scan_in_ep st"
          by (simp_all add: spec_record_def)
        with IH f True ni i show ?thesis
          by (auto simp: is_in_endpoint_def)
      qed
    next
      case False
      with ni have "in_msc_interface (spec_record r st) = in_msc_interface st"
        "scan_in_ep (spec_record r st) = scan_in_ep st"
        "scan_out_ep (spec_record r st) = scan_out_ep st"
        by (auto simp: spec_record_def)
      with IH False ni show ?thesis by auto
    qed
  qed
qed

lemma spec_scan_one_msc_interface:
  assumes msc: "is_msc_interface iface"
    and others: "\<forall>r\<in>set pre \<union> set post. \<not> is_msc_interface r"
    and mid: "\<forall>r\<in>set mid. \<not> is_interface r"
    and post: "post = [] \<or> is_interface (hd post)"
    and ein: "filter is_in_endpoint mid = [ein]"
    and eout: "filter is_out_endpoint mid = [eout]"
    and cfg: "filter is_configuration (pre @ [iface] @ mid @ post) = [cfg]"
  shows "config_value (spec_scan (pre @ [iface] @ mid @ post)) = cfg ! 5"
    and "msc_interface (spec_scan (pre @ [iface] @ mid @ post)) = Some (iface ! 2)"
    and "scan_in_ep (spec_scan (pre @ [iface] @ mid @ post)) = ein ! 2"
    and "scan_out_ep (spec_scan (pre @ [iface] @ mid @ post)) = eout ! 2"
proof -
  let ?s1 = "fold spec_record pre scan_init"
  let ?s2 = "spec_record iface ?s1"
  let ?s3 = "fold spec_record mid ?s2"
  let ?s4 = "fold spec_record post ?s3"
  have s4: "spec_scan (pre @ [iface] @ mid @ post) = ?s4" by (simp add: spec_scan_def)
  have "config_value (fold spec_record (pre @ [iface] @ mid @ post) scan_init) =
     (if [cfg] = [] then config_value scan_init else last [cfg] ! 5)"
    unfolding cfg [symmetric] by (rule fold_config_value)
  then show "config_value (spec_scan (pre @ [iface] @ mid @ post)) = cfg ! 5"
    unfolding spec_scan_def by simp
  have i0: "\<not> in_msc_interface scan_init" by (simp add: scan_init_def)
  from others have "\<forall>r\<in>set pre. \<not> is_msc_interface r" by simp
  from fold_outside [OF i0 this]
  have s1: "msc_interface ?s1 = None" "scan_in_ep ?s1 = 0" "scan_out_ep ?s1 = 0"
    by (simp_all add: scan_init_def)
  from msc have ii: "is_interface iface" and nc: "\<not> is_configuration iface"
    using record_kinds(1,4) by blast+
  from msc ii nc s1
  have s2: "in_msc_interface ?s2" "msc_interface ?s2 = Some (iface ! 2)"
    "scan_in_ep ?s2 = 0" "scan_out_ep ?s2 = 0"
    by (simp_all add: spec_record_def)
  from fold_inside [OF s2(1) mid] ein eout s2
  have s3: "in_msc_interface ?s3" "msc_interface ?s3 = Some (iface ! 2)"
    "scan_in_ep ?s3 = ein ! 2" "scan_out_ep ?s3 = eout ! 2"
    by simp_all
  have "msc_interface ?s4 = msc_interface ?s3 \<and> scan_in_ep ?s4 = scan_in_ep ?s3
      \<and> scan_out_ep ?s4 = scan_out_ep ?s3"
  proof (cases post)
    case Nil
    then show ?thesis by simp
  next
    case (Cons p ps)
    with post have pi: "is_interface p" by simp
    from Cons others have pm: "\<not> is_msc_interface p" and rest: "\<forall>r\<in>set ps. \<not> is_msc_interface r"
      by simp_all
    from pi have pc: "\<not> is_configuration p" using record_kinds(1) by blast
    from pi pm pc have p: "\<not> in_msc_interface (spec_record p ?s3)"
      "msc_interface (spec_record p ?s3) = msc_interface ?s3"
      "scan_in_ep (spec_record p ?s3) = scan_in_ep ?s3"
      "scan_out_ep (spec_record p ?s3) = scan_out_ep ?s3"
      by (simp_all add: spec_record_def)
    from fold_outside [OF p(1) rest] p Cons show ?thesis by simp
  qed
  with s3 s4
  show "msc_interface (spec_scan (pre @ [iface] @ mid @ post)) = Some (iface ! 2)"
    and "scan_in_ep (spec_scan (pre @ [iface] @ mid @ post)) = ein ! 2"
    and "scan_out_ep (spec_scan (pre @ [iface] @ mid @ post)) = eout ! 2"
    by simp_all
qed

lemma in_endpoint_nonzero: "is_in_endpoint r \<Longrightarrow> r ! 2 \<noteq> 0"
  by (auto simp: is_in_endpoint_def)

lemma spec_scan_missing_endpoint:
  assumes "(\<forall>a\<in>set (msc_endpoints False recs). a AND 0x80 = 0)
         \<or> (\<forall>a\<in>set (msc_endpoints False recs). a AND 0x80 \<noteq> 0)"
  shows "scan_in_ep (spec_scan recs) = 0 \<or> scan_out_ep (spec_scan recs) = 0"
  using fold_endpoints [of recs scan_init] assms
  by (auto simp: spec_scan_def scan_init_def)

lemma thumb_records:
  "wf_record thumb_configuration" "wf_record thumb_interface"
  "wf_record thumb_in_endpoint" "wf_record thumb_out_endpoint"
  by (simp_all add: wf_record_def is_configuration_def is_interface_def
      is_endpoint_def thumb_configuration_def
      thumb_interface_def thumb_in_endpoint_def thumb_out_endpoint_def
      DESC_CONFIGURATION_def DESC_INTERFACE_def DESC_ENDPOINT_def)

lemma thumb_kinds:
  "is_configuration thumb_configuration" "\<not> is_interface thumb_configuration"
  "\<not> is_msc_interface thumb_configuration" "\<not> is_endpoint thumb_configuration"
  "\<not> is_in_endpoint thumb_configuration" "\<not> is_out_endpoint thumb_configuration"
  "\<not> is_configuration thumb_interface" "is_interface thumb_interface"
  "is_msc_interface thumb_interface" "\<not> is_endpoint thumb_interface"
  "\<not> is_in_endpoint thumb_interface" "\<not> is_out_endpoint thumb_interface"
  "\<not> is_configuration thumb_in_endpoint" "\<not> is_interface thumb_in_endpoint"
  "\<not> is_msc_interface thumb_in_endpoint" "is_endpoint thumb_in_endpoint"
  "is_in_endpoint thumb_in_endpoint" "\<not> is_out_endpoint thumb_in_endpoint"
  "\<not> is_configuration thumb_out_endpoint" "\<not> is_interface thumb_out_endpoint"
  "\<not> is_msc_interface thumb_out_endpoint" "is_endpoint thumb_out_endpoint"
  "\<not> is_in_endpoint thumb_out_endpoint" "is_out_endpoint thumb_out_endpoint"
  by (simp_all add: is_configuration_def is_interface_def is_msc_interface_def
      is_endpoint_def is_in_endpoint_def is_out_endpoint_def thumb_configuration_def
      thumb_interface_def thumb_in_endpoint_def thumb_out_endpoint_def
      DESC_CONFIGURATION_def DESC_INTERFACE_def DESC_ENDPOINT_def)

lemma thumb_drive_records:
  "thumb_drive_descriptor
     = concat ([thumb_configuration] @ [thumb_interface]
               @ [thumb_in_endpoint, thumb_out_endpoint] @ [])"
  by (simp add: thumb_drive_descriptor_def thumb_configuration_def thumb_interface_def
      thumb_in_endpoint_def thumb_out_endpoint_def)

subsection \<open>The object that construction returns\<close>

text \<open>
  The theorems on the block operations and on the readiness wait assume a CBW buffer of 31
  bytes, a CSW buffer of 13 bytes and a LUN that is a byte: every object that construction
  returns is such a session.
\<close>

lemma scsi_command_frame:
  assumes c: "scsi_command direction command data s d = (r, b, s', d')"
    and l: "length command = 6" and c0: "21 \<le> length (cbw s0)" and fr: "same_frame s0 s"
  shows "same_frame s0 s'"
proof -
  let ?X = "cbw_wire (cbw s) direction command (length data)"
  have A: "same_frame s0 (s\<lparr>cbw := ?X, csw := w\<rparr>)" if "length w = length (csw s0)" for w
    by (rule same_frame_step [OF fr l c0 that])
  from fr have w: "length (csw s) = length (csw s0)" by (simp add: same_frame_def)
  from A [of "csw s"] w have B: "same_frame s0 (s\<lparr>cbw := ?X\<rparr>)" by simp
  have C: "same_frame s0 (s\<lparr>cbw := cbw_refused (cbw s) direction (length data)\<rparr>)"
    using fr c0 by (simp add: same_frame_def cbw_refused_def le32_def)
  from c have "s' = s\<lparr>cbw := cbw_refused (cbw s) direction (length data)\<rparr>
      \<or> s' = s\<lparr>cbw := ?X\<rparr> \<or> (\<exists>y. s' = s\<lparr>cbw := ?X, csw := fill (csw s) y\<rparr>)"
    by (auto simp: scsi_command_unfold Let_def dev_read_cases dev_write_cases
        split: if_splits sum.splits prod.splits outcome.splits)
  with A B C w show ?thesis by auto
qed

lemma wait_loop_frame:
  "wait_loop tries try_num test_ready sense sense_response s d = (res, s', d') \<Longrightarrow>
   length test_ready = 6 \<Longrightarrow> length sense = 6 \<Longrightarrow> 21 \<le> length (cbw s0) \<Longrightarrow>
   same_frame s0 s \<Longrightarrow> same_frame s0 s'"
proof (induction tries try_num test_ready sense sense_response s d arbitrary: res s' d'
    rule: wait_loop.induct)
  case (1 tries try_num test_ready sense r s d)
  note unf = wait_loop.simps [of tries try_num test_ready sense r s d]
  show ?case
  proof (cases "csw s ! 12 \<noteq> 0 \<and> try_num < tries")
    case False
    then have "wait_loop tries try_num test_ready sense r s d = (Inr (), s, d)"
      by (auto simp: unf)
    with "1.prems" show ?thesis by simp
  next
    case True
    obtain r1 b1 s1 d1 where a: "scsi_command DIR_IN sense r s d = (r1, b1, s1, d1)"
      by (metis prod_cases4)
    note f1 = scsi_command_frame [OF a "1.prems"(3) "1.prems"(4) "1.prems"(5)]
    show ?thesis
    proof (cases r1)
      case (Inl x)
      with True a have "wait_loop tries try_num test_ready sense r s d = (Inl x, s1, d1)"
        by (simp add: unf)
      with "1.prems"(1) f1 show ?thesis by simp
    next
      case (Inr u)
      obtain r2 b2 s2 d2 where b: "scsi_command DIR_OUT test_ready [] s1 d1 = (r2, b2, s2, d2)"
        by (metis prod_cases4)
      note f2 = scsi_command_frame [OF b "1.prems"(2) "1.prems"(4) f1]
      show ?thesis
      proof (cases r2)
        case (Inl x)
        with True a Inr b
        have "wait_loop tries try_num test_ready sense r s d = (Inl x, s2, d2)"
          by (simp add: unf)
        with "1.prems"(1) f2 show ?thesis by simp
      next
        case r2: (Inr u2)
        from "1.prems"(1) True a Inr b r2
        have w: "wait_loop tries (try_num + 1) test_ready sense b1 s2 d2 = (res, s', d')"
          by (simp add: unf)
        show ?thesis
          by (rule "1.IH" [OF True a [symmetric] Inr refl refl b [symmetric] r2 refl refl w
                "1.prems"(2) "1.prems"(3) "1.prems"(4) f2])
      qed
    qed
  qed
qed

lemma wait_for_ready_frame:
  assumes w: "wait_for_ready tries s d = (res, s', d')" and c0: "21 \<le> length (cbw s)"
  shows "same_frame s s'"
proof (cases "length (csw s) \<le> 12")
  case True
  with w show ?thesis by (simp add: wait_for_ready_def)
next
  case False
  let ?s0 = "s\<lparr>csw := (csw s)[12 := 1]\<rparr>"
  have fr0: "same_frame s ?s0" by simp
  show ?thesis
  proof (cases "lun s < 0 \<or> 256 \<le> lun s")
    case True
    with w False fr0 show ?thesis by (auto simp: wait_for_ready_def Let_def)
  next
    case l: False
    obtain r1 b1 s1 d1 where
      a: "scsi_command DIR_OUT (test_ready_command (lun s)) [] ?s0 d = (r1, b1, s1, d1)"
      by (metis prod_cases4)
    have f1: "same_frame s s1" by (rule scsi_command_frame [OF a _ c0 fr0]) simp
    show ?thesis
    proof (cases r1)
      case (Inl x)
      with w False l a have "s' = s1" by (auto simp: wait_for_ready_def Let_def)
      with f1 show ?thesis by simp
    next
      case (Inr u)
      obtain r2 s2 d2 where
        b: "wait_loop tries 0 (test_ready_command (lun s)) sense_command (replicate 18 0) s1 d1
              = (r2, s2, d2)"
        by (metis prod_cases3)
      have f2: "same_frame s s2" by (rule wait_loop_frame [OF b _ _ c0 f1]) simp_all
      from w False l a Inr b have "s' = s2"
        by (cases r2) (auto simp: wait_for_ready_def Let_def split: if_splits)
      with f2 show ?thesis by simp
    qed
  qed
qed

lemma construct_session_invariant:
  assumes "construct cd lun0 d = Some (Inr s, d')"
  shows "length (cbw s) = 31 \<and> length (csw s) = 13 \<and> lun s = lun0 \<and> 0 \<le> lun0 \<and> lun0 < 256
       \<and> sector_count s = None \<and> block_size s = None \<and> in_ep s \<noteq> 0 \<and> out_ep s \<noteq> 0"
proof -
  from assms obtain st where run: "init_session st lun0 d = (Inr s, d')"
    and ep: "scan_in_ep st \<noteq> 0" "scan_out_ep st \<noteq> 0"
    by (auto simp: construct_def split: option.splits sum.splits if_splits)
  from run have l: "0 \<le> lun0" "lun0 < 256"
    by (auto simp: init_session_def split: prod.splits sum.splits option.splits if_splits)
  from run obtain d2 s3 d3 where
    i: "inquire (new_session st lun0) d2 = (Inr (), s3, d3)"
    and w: "wait_for_ready 100 s3 d3 = (Inr (), s, d')"
    by (auto simp: init_session_def split: prod.splits sum.splits option.splits if_splits)
  obtain r1 b1 s1 d1 where
    a: "scsi_command DIR_IN inquiry_command (replicate 36 0) (new_session st lun0) d2
          = (r1, b1, s1, d1)"
    by (metis prod_cases4)
  with i have "s3 = s1" by (simp add: inquire_def)
  moreover have "same_frame (new_session st lun0) s1"
    by (rule scsi_command_frame [OF a]) simp_all
  ultimately have f3: "same_frame (new_session st lun0) s3" by simp
  then have "21 \<le> length (cbw s3)" by (simp add: same_frame_def)
  from wait_for_ready_frame [OF w this] have f4: "same_frame s3 s" .
  from f3 f4 l ep show ?thesis by (simp add: same_frame_def)
qed

subsection \<open>Capacity\<close>

text \<open>
  C6. When the three transfers of the Read-Capacity command complete and the device answers
  the data phase with the eight bytes \<open>la, lb, lc, ld, sa, sb, sc, sd\<close>, \<^verbatim>\<open>_read_capacity\<close> returns normally,
  \<open>sector_count\<close> is the big-endian value of \<open>la, lb, lc, ld\<close> plus one and \<open>block_size\<close> is
  the big-endian value of \<open>sa, sb, sc, sd\<close>.
\<close>

theorem read_capacity_big_endian:
  assumes "15 \<le> length (cbw s)"
    and "script d (length (log d)) = Done ra"
    and "script d (Suc (length (log d))) = Done [la, lb, lc, ld, sa, sb, sc, sd]"
    and "script d (Suc (Suc (length (log d)))) = Done rc"
  shows "\<exists>s' d'. read_capacity s d = (Inr (), s', d')
     \<and> sector_count s' = Some (uint la * 2 ^ 24 + uint lb * 2 ^ 16 + uint lc * 2 ^ 8 + uint ld + 1)
     \<and> block_size s' = Some (uint sa * 2 ^ 24 + uint sb * 2 ^ 16 + uint sc * 2 ^ 8 + uint sd)"
proof -
  have c: "length read_capacity_command < 256"
    by (simp add: read_capacity_command_def)
  have "scsi_command DIR_IN read_capacity_command (replicate 8 0) s d =
     (Inr (), fill (replicate 8 0) [la, lb, lc, ld, sa, sb, sc, sd],
      s\<lparr>cbw := cbw_wire (cbw s) DIR_IN read_capacity_command (length (replicate 8 (0::byte))),
        csw := fill (csw s) rc\<rparr>,
      d\<lparr>log := log d @ command_transfers DIR_IN read_capacity_command (replicate 8 0) s\<rparr>)"
    by (rule scsi_command_done_read [OF assms(1) _ c _ assms(2-4)]) simp_all
  moreover have "fill (replicate 8 0) [la, lb, lc, ld, sa, sb, sc, sd]
      = [la, lb, lc, ld, sa, sb, sc, sd]"
    by (simp add: fill_def)
  ultimately show ?thesis
    by (simp add: read_capacity_def unpack_II_def be_int_4)
qed

theorem read_capacity_big_endian_witness:
  "\<exists>s' d'. read_capacity capacity_session capacity_device = (Inr (), s', d')
     \<and> sector_count s' = Some 1000 \<and> block_size s' = Some 512"
  using read_capacity_big_endian [where s = capacity_session and d = capacity_device
      and ra = "[0x00, 0x00, 0x03, 0xE7, 0x00, 0x00, 0x02, 0x00]"
      and la = "0x00" and lb = "0x00" and lc = "0x03" and ld = "0xE7"
      and sa = "0x00" and sb = "0x00" and sc = "0x02" and sd = "0x00"
      and rc = "[0x00, 0x00, 0x03, 0xE7, 0x00, 0x00, 0x02, 0x00]"]
  by (simp add: capacity_session_def capacity_device_def cbw_template_def)





subsection \<open>Reading and writing blocks\<close>

text \<open>
  C3 (amended). For a block number \<open>N\<close> with \<open>0 \<le> N < 2^32\<close>, a buffer of fewer than
  \<open>2^16\<close> whole blocks and a session as construction leaves it (the LUN a byte, the CBW buffer
  in place), \<^verbatim>\<open>readblocks(N, buf)\<close> issues exactly one command: the first transfer it adds
  is the CBW on the OUT endpoint, with data length \<open>len(buf)\<close> little-endian, direction
  \<open>0x80\<close>, command length 10 and the command bytes \<open>0x28\<close>, LUN, \<open>N\<close> big-endian on four
  bytes, zero, \<open>len(buf) // 512\<close> big-endian on two bytes, zero; what follows is the read of
  the data (none for an empty buffer) and the read of the CSW, or the part of them that was
  reached when a transfer failed. \<^verbatim>\<open>writeblocks\<close> is the same with opcode \<open>0x2A\<close>,
  direction \<open>0x00\<close> and the data written to the OUT endpoint.
\<close>

theorem readblocks_writeblocks_one_command:
  assumes "0 \<le> N" "N < 2 ^ 32" "length buf div 512 < 2 ^ 16"
    and "0 \<le> lun s" "lun s < 256" "15 \<le> length (cbw s)"
  shows
   "(case readblocks N buf s d of (r, b, s', d') \<Rightarrow>
       \<exists>rest. log d' = log d
          @ BulkWrite (out_ep s)
              (take 8 (cbw s) @ le32 (int (length buf)) @ [0x80, 0, 10]
                @ [0x28, of_int (lun s)] @ be32 N @ [0] @ be16 (int (length buf) div 512) @ [0]
                @ drop 25 (cbw s)) # rest
        \<and> prefix rest ((if buf = [] then [] else [BulkRead (in_ep s) (length buf)])
                        @ [BulkRead (in_ep s) (length (csw s))]))
  \<and> (case writeblocks N buf s d of (r, b, s', d') \<Rightarrow>
       \<exists>rest. log d' = log d
          @ BulkWrite (out_ep s)
              (take 8 (cbw s) @ le32 (int (length buf)) @ [0x00, 0, 10]
                @ [0x2A, of_int (lun s)] @ be32 N @ [0] @ be16 (int (length buf) div 512) @ [0]
                @ drop 25 (cbw s)) # rest
        \<and> prefix rest ((if buf = [] then [] else [BulkWrite (out_ep s) buf])
                        @ [BulkRead (in_ep s) (length (csw s))]))"
proof -
  from assms(3) have n: "int (length buf) div 512 < 2 ^ 16"
    by (simp add: zdiv_int [symmetric] del: zdiv_int)
  from assms(3) have len: "length buf < 2 ^ 32" by simp
  have n0: "0 \<le> int (length buf) div 512" by simp
  let ?rd = "[SCSI_CMD_READ_10, of_int (lun s)] @ be32 N @ [0]
              @ be16 (int (length buf) div 512) @ [0]"
  let ?wr = "[SCSI_CMD_WRITE_10, of_int (lun s)] @ be32 N @ [0]
              @ be16 (int (length buf) div 512) @ [0]"
  have lrd: "length ?rd = 10" and lwr: "length ?wr = 10"
    by (simp_all add: be32_def be16_def)
  have rd: "readblocks N buf s d = scsi_command DIR_IN ?rd buf s d"
    by (simp add: readblocks_def
        pack_into_BBIxH_Inr [OF assms(1) assms(2) n0 n assms(4) assms(5)])
  have wr: "writeblocks N buf s d = scsi_command DIR_OUT ?wr buf s d"
    by (simp add: writeblocks_def
        pack_into_BBIxH_Inr [OF assms(1) assms(2) n0 n assms(4) assms(5)])
  obtain r b s' d' where 1: "scsi_command DIR_IN ?rd buf s d = (r, b, s', d')"
    by (metis prod_cases4)
  obtain r2 b2 s2 d2 where 2: "scsi_command DIR_OUT ?wr buf s d = (r2, b2, s2, d2)"
    by (metis prod_cases4)
  have c1: "cbw_wire (cbw s) DIR_IN ?rd (length buf)
      = take 8 (cbw s) @ le32 (int (length buf)) @ [0x80, 0, 10]
                @ [0x28, of_int (lun s)] @ be32 N @ [0] @ be16 (int (length buf) div 512) @ [0]
                @ drop 25 (cbw s)"
    unfolding cbw_wire_def lrd by (simp add: DIR_IN_def SCSI_CMD_READ_10_def)
  have c2: "cbw_wire (cbw s) DIR_OUT ?wr (length buf)
      = take 8 (cbw s) @ le32 (int (length buf)) @ [0x00, 0, 10]
                @ [0x2A, of_int (lun s)] @ be32 N @ [0] @ be16 (int (length buf) div 512) @ [0]
                @ drop 25 (cbw s)"
    unfolding cbw_wire_def lwr by (simp add: DIR_OUT_def SCSI_CMD_WRITE_10_def)
  have lt: "length ?rd < 256" "length ?wr < 256" using lrd lwr by simp_all
  have A: "\<exists>rest. log d' = log d
            @ BulkWrite (out_ep s) (cbw_wire (cbw s) DIR_IN ?rd (length buf)) # rest
          \<and> prefix rest ((if buf = [] then [] else [BulkRead (in_ep s) (length buf)])
               @ [BulkRead (in_ep s) (length (csw s))])"
    by (rule scsi_command_log_shape_in [OF 1 assms(6) len lt(1)])
  have B: "\<exists>rest. log d2 = log d
            @ BulkWrite (out_ep s) (cbw_wire (cbw s) DIR_OUT ?wr (length buf)) # rest
          \<and> prefix rest ((if buf = [] then [] else [BulkWrite (out_ep s) buf])
               @ [BulkRead (in_ep s) (length (csw s))])"
    by (rule scsi_command_log_shape_out [OF 2 assms(6) len lt(2)])
  from A B show ?thesis
    unfolding rd wr 1 2 c1 c2 by simp
qed


text \<open>
  The claim as stated fails for a block number that does not fit the four-byte field:
  \<^verbatim>\<open>pack_into\<close> raises and no transfer is issued.
\<close>

theorem readblocks_writeblocks_one_command_counterexample:
  "readblocks 4294967296 (replicate 512 0) capacity_session capacity_device
     = (Inl struct_error, replicate 512 0, capacity_session, capacity_device)"
  by (simp add: readblocks_def pack_into_BBIxH_def)

theorem readblocks_writeblocks_one_command_witness:
  "(0::int) \<le> 5 \<and> (5::int) < 2 ^ 32 \<and> length (replicate 1024 (0::byte)) div 512 < 2 ^ 16
   \<and> 0 \<le> lun capacity_session \<and> lun capacity_session < 256
   \<and> 15 \<le> length (cbw capacity_session)
   \<and> (case readblocks 5 (replicate 1024 0) capacity_session capacity_device of
        (r, b, s', d') \<Rightarrow>
          \<exists>rest. log d' =
            BulkWrite 0x02 [0x55, 0x53, 0x42, 0x43, 0, 0, 0, 0, 0x00, 0x04, 0, 0, 0x80, 0, 10,
                            0x28, 0, 0, 0, 0, 5, 0, 0, 2, 0, 0, 0, 0, 0, 0, 0] # rest
          \<and> prefix rest [BulkRead 0x81 1024, BulkRead 0x81 13])
   \<and> (case writeblocks 5 (replicate 1024 0) capacity_session capacity_device of
        (r, b, s', d') \<Rightarrow>
          \<exists>rest. log d' =
            BulkWrite 0x02 [0x55, 0x53, 0x42, 0x43, 0, 0, 0, 0, 0x00, 0x04, 0, 0, 0x00, 0, 10,
                            0x2A, 0, 0, 0, 0, 5, 0, 0, 2, 0, 0, 0, 0, 0, 0, 0] # rest
          \<and> prefix rest [BulkWrite 0x02 (replicate 1024 0), BulkRead 0x81 13])"
  using readblocks_writeblocks_one_command [of 5 "replicate 1024 0" capacity_session
      capacity_device]
  by (simp add: capacity_session_def capacity_device_def cbw_template_eq le32_def be32_def
      be16_def)

subsection \<open>The LUN field of the CBW\<close>

text \<open>
  C1. The code at the input \<^verbatim>\<open>USBMassStorage(device, lun=1)\<close>, on the thumb drive's
  descriptor and a device that answers zeros: the transfers of the whole construction. Both
  CBWs carry the signature, the data length little-endian in bytes 8 to 11, the direction in
  byte 12, the command length in byte 14 and the command from byte 15 on, but byte 13, the
  LUN field, is 0 although the session's LUN is 1. \<^verbatim>\<open>__init__\<close> stores the LUN at index 14
  of the buffer, and \<^verbatim>\<open>_scsi_command\<close> overwrites that index with the command length, the
  pad byte of its format falling on index 13.
\<close>

theorem cbw_lun_byte_is_zero:
  "map_option (\<lambda>(r, d). log d) (construct thumb_drive_descriptor 1 ready_device) =
     Some [SetConfiguration 1, CtrlTransfer 0xA1 254 0 0 1,
           BulkWrite 0x02 [0x55, 0x53, 0x42, 0x43, 0, 0, 0, 0, 36, 0, 0, 0, 0x80, 0, 6,
                           0x12, 0, 0, 0, 36, 0, 0, 0, 0, 0, 0, 0, 0, 0, 0, 0],
           BulkRead 0x81 36, BulkRead 0x81 13,
           BulkWrite 0x02 [0x55, 0x53, 0x42, 0x43, 0, 0, 0, 0, 0, 0, 0, 0, 0x00, 0, 6,
                           0x00, 1, 0, 0, 0, 0, 0, 0, 0, 0, 0, 0, 0, 0, 0, 0],
           BulkRead 0x81 13]"
  by (simp add: construct_def scan_thumb_drive init_session_def new_session_def set_configuration_def
      transfer_def get_max_lun_def wait_loop.simps ctrl_transfer_def ready_device_def fill_def
      inquire_def scsi_command_def pack_into_IBxB_def le32_def
      data_phase_def dev_read_def dev_write_def wait_for_ready_def command_bytes
      cbw_template_lun csw_template_eq csw_status_update
      REQ_RCPT_INTERFACE_def REQ_TYPE_CLASS_def DIR_IN_def DIR_OUT_def
      MSC_REQ_GET_GET_MAX_LUN_def Let_def)

subsection \<open>Waiting for the unit\<close>





text \<open>
  C5. On a device that completes every transfer and reports a nonzero status to every
  Test-Unit-Ready: \<^verbatim>\<open>_wait_for_ready(tries)\<close> raises "Out of tries" after one
  Test-Unit-Ready and \<open>tries\<close> rounds of Request-Sense and Test-Unit-Ready (none for a
  budget below 1), and construction, which waits with the default budget of 100, ends with
  that error; its transfers are the configuration, the Get-Max-LUN request, the Inquiry, one
  Test-Unit-Ready and 100 rounds, the failing Test-Unit-Ready being the last.
\<close>

theorem readiness_budget_exhausted:
  assumes dn: "\<forall>j. \<exists>bs. script d j = Done bs"
  shows
   "(length (cbw s) = 31 \<and> length (csw s) = 13 \<and> 0 \<le> lun s \<and> lun s < 256
      \<and> (\<forall>k\<le>nat tries. \<exists>v. csw_status d (length (log d) + 5 * k + 1) = Some v \<and> v \<noteq> 0)
     \<longrightarrow> (\<exists>s'. wait_for_ready tries s d =
           (Inl RuntimeError_Out_of_tries, s',
            d\<lparr>log := log d @ test_ready_transfers s
               @ concat (replicate (nat tries)
                   (sense_transfers s @ test_ready_transfers s))\<rparr>)))
    \<and> (scan_loop cd 0 scan_init = Some (Inr st) \<and> scan_in_ep st \<noteq> 0 \<and> scan_out_ep st \<noteq> 0
        \<and> msc_interface st = Some ix \<and> 0 \<le> lun0 \<and> lun0 < 256
        \<and> (\<forall>k\<le>100. \<exists>v. csw_status d (length (log d) + 5 * k + 6) = Some v \<and> v \<noteq> 0)
     \<longrightarrow> construct cd lun0 d =
           Some (Inl RuntimeError_Out_of_tries,
             d\<lparr>log := log d
                @ [SetConfiguration (config_value st), CtrlTransfer 0xA1 254 0 ix 1]
                @ inquiry_transfers (new_session st lun0)
                @ test_ready_transfers (new_session st lun0)
                @ concat (replicate 100 (sense_transfers (new_session st lun0)
                                          @ test_ready_transfers (new_session st lun0)))\<rparr>))"
proof (rule conjI)
  show "length (cbw s) = 31 \<and> length (csw s) = 13 \<and> 0 \<le> lun s \<and> lun s < 256
      \<and> (\<forall>k\<le>nat tries. \<exists>v. csw_status d (length (log d) + 5 * k + 1) = Some v \<and> v \<noteq> 0)
     \<longrightarrow> (\<exists>s'. wait_for_ready tries s d =
           (Inl RuntimeError_Out_of_tries, s',
            d\<lparr>log := log d @ test_ready_transfers s
               @ concat (replicate (nat tries)
                   (sense_transfers s @ test_ready_transfers s))\<rparr>))"
    using wait_for_ready_exhausted [OF _ _ _ _ dn, of s tries] by blast
next
  let ?s = "new_session st lun0"
  let ?d3 = "d\<lparr>log := log d @ [SetConfiguration (config_value st),
                                    CtrlTransfer 0xA1 254 0 ix 1]
                           @ inquiry_transfers ?s\<rparr>"
  show "scan_loop cd 0 scan_init = Some (Inr st) \<and> scan_in_ep st \<noteq> 0 \<and> scan_out_ep st \<noteq> 0
        \<and> msc_interface st = Some ix \<and> 0 \<le> lun0 \<and> lun0 < 256
        \<and> (\<forall>k\<le>100. \<exists>v. csw_status d (length (log d) + 5 * k + 6) = Some v \<and> v \<noteq> 0)
     \<longrightarrow> construct cd lun0 d =
           Some (Inl RuntimeError_Out_of_tries,
             d\<lparr>log := log d
                @ [SetConfiguration (config_value st), CtrlTransfer 0xA1 254 0 ix 1]
                @ inquiry_transfers ?s @ test_ready_transfers ?s
                @ concat (replicate 100 (sense_transfers ?s @ test_ready_transfers ?s))\<rparr>)"
  proof
    assume a: "scan_loop cd 0 scan_init = Some (Inr st) \<and> scan_in_ep st \<noteq> 0
        \<and> scan_out_ep st \<noteq> 0
        \<and> msc_interface st = Some ix \<and> 0 \<le> lun0 \<and> lun0 < 256
        \<and> (\<forall>k\<le>100. \<exists>v. csw_status d (length (log d) + 5 * k + 6) = Some v \<and> v \<noteq> 0)"
    then have ix: "msc_interface st = Some ix" and l: "0 \<le> lun0" "lun0 < 256" by simp_all
    from init_session_run [OF ix l dn] obtain s3 where
      fr: "same_frame ?s s3"
      and run: "init_session st lun0 d =
         (case wait_for_ready 100 s3 ?d3 of
            (Inl e, s4, d4) \<Rightarrow> (Inl e, d4)
          | (Inr u, s4, d4) \<Rightarrow> (Inr s4, d4))"
      by blast
    from fr have s3: "length (cbw s3) = 31" "length (csw s3) = 13" "lun s3 = lun0"
      by (simp_all add: same_frame_def)
    have dn3: "\<forall>j. \<exists>bs. script ?d3 j = Done bs" using dn by simp
    have len3: "length (log ?d3) = length (log d) + 5"
      by (simp add: inquiry_transfers_def command_transfers_def)
    have st3: "\<forall>k\<le>nat 100. \<exists>v. csw_status ?d3 (length (log ?d3) + 5 * k + 1) = Some v \<and> v \<noteq> 0"
    proof (intro allI impI)
      fix k :: nat assume "k \<le> nat 100"
      then have "k \<le> 100" by simp
      with a obtain v where "csw_status d (length (log d) + 5 * k + 6) = Some v" "v \<noteq> 0"
        by blast
      moreover have "length (log ?d3) + 5 * k + 1 = length (log d) + 5 * k + 6"
        unfolding len3 by simp
      ultimately show "\<exists>v. csw_status ?d3 (length (log ?d3) + 5 * k + 1) = Some v \<and> v \<noteq> 0"
        by (simp only: csw_status_log) blast
    qed
    from wait_for_ready_exhausted [OF s3(1) s3(2) _ _ dn3 st3] l s3(3)
    obtain s' where w: "wait_for_ready 100 s3 ?d3 =
           (Inl RuntimeError_Out_of_tries, s',
            ?d3\<lparr>log := log ?d3 @ test_ready_transfers s3
               @ concat (replicate (nat 100) (sense_transfers s3 @ test_ready_transfers s3))\<rparr>)"
      by auto
    have n: "nat 100 = 100" by simp
    from a run w show "construct cd lun0 d =
           Some (Inl RuntimeError_Out_of_tries,
             d\<lparr>log := log d
                @ [SetConfiguration (config_value st), CtrlTransfer 0xA1 254 0 ix 1]
                @ inquiry_transfers ?s @ test_ready_transfers ?s
                @ concat (replicate 100 (sense_transfers ?s @ test_ready_transfers ?s))\<rparr>)"
      unfolding same_frame_ready_transfers [OF fr] n
      by (simp add: construct_def)
  qed
qed

theorem readiness_budget_exhausted_witness:
  "(\<forall>j. \<exists>bs. script never_ready_device j = Done bs)
   \<and> length (cbw capacity_session) = 31 \<and> length (csw capacity_session) = 13
   \<and> 0 \<le> lun capacity_session \<and> lun capacity_session < 256
   \<and> (\<forall>j. csw_status never_ready_device j = Some 1)
   \<and> (\<exists>s'. wait_for_ready 3 capacity_session never_ready_device =
           (Inl RuntimeError_Out_of_tries, s',
            never_ready_device\<lparr>log := test_ready_transfers capacity_session
               @ concat (replicate 3 (sense_transfers capacity_session
                                       @ test_ready_transfers capacity_session))\<rparr>))
   \<and> scan_loop thumb_drive_descriptor 0 scan_init
       = Some (Inr \<lparr>config_value = 1, in_msc_interface = True, msc_interface = Some 0,
                    scan_in_ep = 0x81, scan_out_ep = 0x02\<rparr>)
   \<and> map_option (\<lambda>(r, d). (r, length (log d)))
        (construct thumb_drive_descriptor 0 never_ready_device)
       = Some (Inl RuntimeError_Out_of_tries, 507)"
proof -
  let ?st = "\<lparr>config_value = 1, in_msc_interface = True, msc_interface = Some 0,
                    scan_in_ep = 0x81, scan_out_ep = 0x02\<rparr>"
  have dn: "\<forall>j. \<exists>bs. script never_ready_device j = Done bs"
    by (simp add: never_ready_device_def)
  have st: "\<And>j. csw_status never_ready_device j = Some 1"
    by (simp add: csw_status_def never_ready_device_def)
  have s: "length (cbw capacity_session) = 31 \<and> length (csw capacity_session) = 13
   \<and> 0 \<le> lun capacity_session \<and> lun capacity_session < 256"
    by (simp add: capacity_session_def)
  have l0: "log never_ready_device = []" by (simp add: never_ready_device_def)
  note T = readiness_budget_exhausted [OF dn, of capacity_session 3 thumb_drive_descriptor
      ?st 0 0]
  from T [THEN conjunct1] s st
  have 1: "\<exists>s'. wait_for_ready 3 capacity_session never_ready_device =
           (Inl RuntimeError_Out_of_tries, s',
            never_ready_device\<lparr>log := test_ready_transfers capacity_session
               @ concat (replicate 3 (sense_transfers capacity_session
                                       @ test_ready_transfers capacity_session))\<rparr>)"
    by (simp add: l0)
  from T [THEN conjunct2] scan_thumb_drive st
  have 2: "construct thumb_drive_descriptor 0 never_ready_device =
           Some (Inl RuntimeError_Out_of_tries,
             never_ready_device\<lparr>log := log never_ready_device
                @ [SetConfiguration (config_value ?st), CtrlTransfer 0xA1 254 0 0 1]
                @ inquiry_transfers (new_session ?st 0)
                @ test_ready_transfers (new_session ?st 0)
                @ concat (replicate 100 (sense_transfers (new_session ?st 0)
                                          @ test_ready_transfers (new_session ?st 0)))\<rparr>)"
    by simp
  have 3: "map_option (\<lambda>(r, d). (r, length (log d)))
        (construct thumb_drive_descriptor 0 never_ready_device)
       = Some (Inl RuntimeError_Out_of_tries, 507)"
    unfolding 2 by (simp add: l0 length_concat sum_list_replicate inquiry_transfers_def
        command_transfers_def)
  from dn s st 1 scan_thumb_drive 3 show ?thesis by simp
qed


subsection \<open>Construction and the Get-Max-LUN request\<close>

text \<open>
  C10. The outcome of the Get-Max-LUN request, the second transfer of a construction, has no
  influence on anything that follows. For two devices with the same log whose outcomes
  agree on every transfer but that one (a completed request with any byte, a stall, any
  failure), construction gives the same result, that is the same error or the same final
  object, and issues the same transfers. The object has no field for the value.
\<close>

theorem max_lun_outcome_discarded:
  assumes "log d = log e"
    and "\<forall>j. j \<noteq> Suc (length (log d)) \<longrightarrow> script d j = script e j"
  shows "map_option fst (construct cd lun0 d) = map_option fst (construct cd lun0 e)
       \<and> map_option (\<lambda>(r, d'). log d') (construct cd lun0 d)
           = map_option (\<lambda>(r, e'). log e') (construct cd lun0 e)"
proof (cases "scan_loop cd 0 scan_init")
  case None
  then show ?thesis by (simp add: construct_def)
next
  case (Some a)
  show ?thesis
  proof (cases a)
    case (Inl x)
    with Some assms(1) show ?thesis by (simp add: construct_def)
  next
    case (Inr st)
    obtain r d' where run: "init_session st lun0 d = (r, d')" by (cases "init_session st lun0 d")
    from init_session_max_lun_irrelevant [OF assms run] obtain e' where
      "init_session st lun0 e = (r, e')" "log e' = log d'" by blast
    with Some Inr run assms(1) show ?thesis by (simp add: construct_def)
  qed
qed

theorem max_lun_outcome_discarded_witness:
  "log ready_device = log stalled_device
   \<and> map_option fst (construct thumb_drive_descriptor 0 ready_device)
       = map_option fst (construct thumb_drive_descriptor 0 stalled_device)
   \<and> map_option (\<lambda>(r, d'). log d') (construct thumb_drive_descriptor 0 ready_device)
       = map_option (\<lambda>(r, e'). log e') (construct thumb_drive_descriptor 0 stalled_device)"
proof -
  have l: "log ready_device = log stalled_device"
    by (simp add: stalled_device_def)
  have s: "\<forall>j. j \<noteq> Suc (length (log ready_device))
            \<longrightarrow> script ready_device j = script stalled_device j"
    by (simp add: stalled_device_def ready_device_def)
  from max_lun_outcome_discarded [OF l s] l show ?thesis by simp
qed

text \<open>
  C8 (amended). When construction returns with result \<open>r\<close>, having taken the device from
  \<open>d\<close> to \<open>d'\<close>: every transfer it issued that failed, other than the second one, is the
  last transfer issued and \<open>r\<close> is that failure as a \<^verbatim>\<open>USBError\<close>; \<open>r\<close> is a \<^verbatim>\<open>USBError\<close>
  only in that way; the second transfer, when issued, is the Get-Max-LUN control request; and
  whatever the outcome of that request (completion, a stall or any other failure), a device
  that differs only there gives the same result and the same transfers. So any
  \<^verbatim>\<open>USBError\<close> of the Get-Max-LUN request is recovered and construction continues, and
  a failure of \<^verbatim>\<open>set_configuration\<close> or of a bulk transfer is not caught.
\<close>

theorem transport_failures_in_construction:
  assumes "construct cd lun0 d = Some (r, d')"
  shows "(\<forall>j k. length (log d) \<le> j \<and> j < length (log d') \<and> j \<noteq> Suc (length (log d))
              \<and> script d j = Fail k
            \<longrightarrow> r = Inl (USBError k) \<and> Suc j = length (log d'))
       \<and> (\<forall>k. r = Inl (USBError k)
            \<longrightarrow> length (log d) < length (log d')
                \<and> length (log d') - 1 \<noteq> Suc (length (log d))
                \<and> script d (length (log d') - 1) = Fail k)
       \<and> (Suc (length (log d)) < length (log d')
            \<longrightarrow> (\<exists>ix. log d' ! Suc (length (log d)) = CtrlTransfer 0xA1 254 0 ix 1))
       \<and> (\<forall>e. log e = log d \<and> (\<forall>j. j \<noteq> Suc (length (log d)) \<longrightarrow> script e j = script d j)
            \<longrightarrow> (\<exists>e'. construct cd lun0 e = Some (r, e') \<and> log e' = log d'))"
proof -
  let ?A = "\<forall>j k. length (log d) \<le> j \<and> j < length (log d') \<and> j \<noteq> Suc (length (log d))
              \<and> script d j = Fail k
            \<longrightarrow> r = Inl (USBError k) \<and> Suc j = length (log d')"
  let ?B = "\<forall>k. r = Inl (USBError k)
            \<longrightarrow> length (log d) < length (log d')
                \<and> length (log d') - 1 \<noteq> Suc (length (log d))
                \<and> script d (length (log d') - 1) = Fail k"
  let ?C = "Suc (length (log d)) < length (log d')
            \<longrightarrow> (\<exists>ix. log d' ! Suc (length (log d)) = CtrlTransfer 0xA1 254 0 ix 1)"
  let ?D = "\<forall>e. log e = log d \<and> (\<forall>j. j \<noteq> Suc (length (log d)) \<longrightarrow> script e j = script d j)
            \<longrightarrow> (\<exists>e'. construct cd lun0 e = Some (r, e') \<and> log e' = log d')"
  from assms obtain a where Some: "scan_loop cd 0 scan_init = Some a"
    by (cases "scan_loop cd 0 scan_init") (simp_all add: construct_def)
  have "?A \<and> ?B \<and> ?C \<and> ?D"
  proof (cases "\<exists>st. a = Inr st \<and> scan_in_ep st \<noteq> 0 \<and> scan_out_ep st \<noteq> 0")
    case False
    have c: "construct cd lun0 e = Some (r, e) \<and> d' = d \<and> (\<forall>k. r \<noteq> Inl (USBError k))" for e
    proof (cases a)
      case (Inl x)
      from scan_loop_error [OF Some] Inl have "x = IndexError" by simp
      with assms Some Inl show ?thesis by (auto simp: construct_def)
    next
      case (Inr st)
      with False have "scan_in_ep st = 0 \<or> scan_out_ep st = 0" by simp
      with assms Some Inr show ?thesis by (auto simp: construct_def)
    qed
    then have d': "d' = d" and r: "\<forall>k. r \<noteq> Inl (USBError k)" by simp_all
    have A: ?A unfolding d' by auto
    have B: ?B using r by simp
    have C: ?C unfolding d' by simp
    have D: ?D
    proof (intro allI impI)
      fix e :: device assume "log e = log d \<and> (\<forall>j. j \<noteq> Suc (length (log d)) \<longrightarrow> script e j = script d j)"
      then have "log e = log d'" using d' by simp
      with c [of e] show "\<exists>e'. construct cd lun0 e = Some (r, e') \<and> log e' = log d'" by blast
    qed
    from A B C D show ?thesis by (intro conjI)
  next
    case True
    then obtain st where a: "a = Inr st" and ep: "scan_in_ep st \<noteq> 0" "scan_out_ep st \<noteq> 0"
      by blast
    from Some a ep have c: "\<And>e. construct cd lun0 e = Some (init_session st lun0 e)"
      by (simp add: construct_def)
    with assms have run: "init_session st lun0 d = (r, d')" by simp
    note f = init_session_faithful [OF run]
    have A: ?A
    proof (intro allI impI)
      fix j k
      assume "length (log d) \<le> j \<and> j < length (log d') \<and> j \<noteq> Suc (length (log d))
              \<and> script d j = Fail k"
      then have "length (log d) \<le> j" "j < length (log d')" "j \<notin> {Suc (length (log d))}"
        "script d j = Fail k" by simp_all
      then show "r = Inl (USBError k) \<and> Suc j = length (log d')"
        by (rule faithful_failD [OF f])
    qed
    have B: ?B
    proof (intro allI impI)
      fix k assume "r = Inl (USBError k)"
      with f have "faithful {Suc (length (log d))} d (Inl (USBError k) :: error + session) d'"
        by simp
      from faithful_errorD [OF this]
      show "length (log d) < length (log d')
                \<and> length (log d') - 1 \<noteq> Suc (length (log d))
                \<and> script d (length (log d') - 1) = Fail k"
        by simp
    qed
    have C: ?C using init_session_second_transfer [OF run] by blast
    have D: ?D
    proof (intro allI impI)
      fix e :: device
      assume h: "log e = log d \<and> (\<forall>j. j \<noteq> Suc (length (log d)) \<longrightarrow> script e j = script d j)"
      then have lg: "log d = log e"
        and sc: "\<forall>j. j \<noteq> Suc (length (log d)) \<longrightarrow> script d j = script e j"
        by simp_all
      from init_session_max_lun_irrelevant [OF lg sc run] obtain e' where
        "init_session st lun0 e = (r, e')" "log e' = log d'" by blast
      with c [of e] show "\<exists>e'. construct cd lun0 e = Some (r, e') \<and> log e' = log d'" by simp
    qed
    from A B C D show ?thesis by (intro conjI)
  qed
  then show ?thesis .
qed

text \<open>
  The claim as stated fails where the Get-Max-LUN request fails otherwise than by a stall:
  with a timeout there, construction completes and returns the object.
\<close>

theorem transport_failures_in_construction_counterexample:
  "map_option fst (construct thumb_drive_descriptor 0 timeout_device) =
     Some (Inr \<lparr>in_ep = 0x81, out_ep = 0x02, sector_count = None, block_size = None, lun = 0,
                cbw = [0x55, 0x53, 0x42, 0x43, 0, 0, 0, 0, 0, 0, 0, 0, 0x00, 0, 6,
                       0x00, 0, 0, 0, 0, 0, 0, 0, 0, 0, 0, 0, 0, 0, 0, 0],
                csw = [0, 0, 0, 0, 0, 0, 0, 0, 0, 0, 0, 0, 0]\<rparr>)"
  by (simp add: construct_def scan_thumb_drive init_session_def new_session_def
      set_configuration_def transfer_def get_max_lun_def wait_loop.simps ctrl_transfer_def
      ready_device_def timeout_device_def fill_def
      inquire_def scsi_command_def pack_into_IBxB_def le32_def
      data_phase_def dev_read_def dev_write_def wait_for_ready_def command_bytes
      cbw_template_lun csw_template_eq csw_status_update
      REQ_RCPT_INTERFACE_def REQ_TYPE_CLASS_def DIR_IN_def DIR_OUT_def
      MSC_REQ_GET_GET_MAX_LUN_def Let_def)

theorem transport_failures_in_construction_witness:
  "\<exists>e'. construct thumb_drive_descriptor 0 stalled_device =
          Some (Inr \<lparr>in_ep = 0x81, out_ep = 0x02, sector_count = None, block_size = None,
                     lun = 0,
                     cbw = [0x55, 0x53, 0x42, 0x43, 0, 0, 0, 0, 0, 0, 0, 0, 0x00, 0, 6,
                            0x00, 0, 0, 0, 0, 0, 0, 0, 0, 0, 0, 0, 0, 0, 0, 0],
                     csw = [0, 0, 0, 0, 0, 0, 0, 0, 0, 0, 0, 0, 0]\<rparr>, e')
        \<and> length (log e') = 7"
proof -
  note T = transport_failures_in_construction [OF construct_thumb_ready]
  have h: "log stalled_device = log ready_device
      \<and> (\<forall>j. j \<noteq> Suc (length (log ready_device))
            \<longrightarrow> script stalled_device j = script ready_device j)"
    by (simp add: stalled_device_def ready_device_def)
  from T [THEN conjunct2, THEN conjunct2, THEN conjunct2, rule_format, OF h]
  show ?thesis by auto
qed

subsection \<open>The status wrapper outside the readiness loop\<close>

text \<open>
  C9. Provided every transfer completes and the arguments fit the fields of the command
  (the LUN in a byte, the block number in four bytes, the block count in two; the CBW buffer
  long enough for its header), \<^verbatim>\<open>readblocks\<close>, \<^verbatim>\<open>writeblocks\<close>, \<^verbatim>\<open>_inquire\<close> and
  \<^verbatim>\<open>_read_capacity\<close> return normally, whatever the device sends. The proviso on the
  arguments is needed (see the counterexample below). With no proviso at all:

  \<^item> the result of each of the four, and the transfers it issues, are the same on any two
    devices that fail the same transfers in the same way, and whatever the status buffer of
    the object held before the call: no byte that the device sends or has sent, the CSW's
    signature, tag and status included, decides what the call does;

  \<^item> on two devices that differ only in the bytes of the CSW of the command, the data
    buffer that \<^verbatim>\<open>readblocks\<close> and \<^verbatim>\<open>writeblocks\<close> leave is the same, and the object that
    each of the four leaves is the same in every field but the status buffer, the stored
    sector count and block size included.

  The readiness wait is different: on the same object, two devices that complete every
  transfer and differ in the bytes they send make it return normally on one and raise
  "Out of tries" on the other.
\<close>

theorem csw_status_not_inspected:
  "((\<forall>j. \<exists>bs. script d j = Done bs) \<and> 15 \<le> length (cbw s)
      \<and> 0 \<le> lun s \<and> lun s < 256 \<and> 0 \<le> N \<and> N < 2 ^ 32
      \<and> int (length buf) div 512 < 2 ^ 16 \<longrightarrow>
        fst (readblocks N buf s d) = Inr () \<and> fst (writeblocks N buf s d) = Inr ())
   \<and> ((\<forall>j. \<exists>bs. script d j = Done bs) \<and> 15 \<le> length (cbw s) \<longrightarrow>
        fst (inquire s d) = Inr () \<and> fst (read_capacity s d) = Inr ())
   \<and> (same_failures d e \<and> length c = length (csw s) \<longrightarrow>
        fst (readblocks N buf (s\<lparr>csw := c\<rparr>) e) = fst (readblocks N buf s d)
      \<and> log (snd (snd (snd (readblocks N buf (s\<lparr>csw := c\<rparr>) e))))
          = log (snd (snd (snd (readblocks N buf s d))))
      \<and> fst (writeblocks N buf (s\<lparr>csw := c\<rparr>) e) = fst (writeblocks N buf s d)
      \<and> log (snd (snd (snd (writeblocks N buf (s\<lparr>csw := c\<rparr>) e))))
          = log (snd (snd (snd (writeblocks N buf s d))))
      \<and> fst (inquire (s\<lparr>csw := c\<rparr>) e) = fst (inquire s d)
      \<and> log (snd (snd (inquire (s\<lparr>csw := c\<rparr>) e))) = log (snd (snd (inquire s d)))
      \<and> fst (read_capacity (s\<lparr>csw := c\<rparr>) e) = fst (read_capacity s d)
      \<and> log (snd (snd (read_capacity (s\<lparr>csw := c\<rparr>) e)))
          = log (snd (snd (read_capacity s d))))
   \<and> (same_but_at (csw_position buf d) d e \<longrightarrow>
        fst (snd (readblocks N buf (s\<lparr>csw := c\<rparr>) e)) = fst (snd (readblocks N buf s d))
      \<and> but_csw (fst (snd (snd (readblocks N buf (s\<lparr>csw := c\<rparr>) e))))
          = but_csw (fst (snd (snd (readblocks N buf s d))))
      \<and> fst (snd (writeblocks N buf (s\<lparr>csw := c\<rparr>) e)) = fst (snd (writeblocks N buf s d))
      \<and> but_csw (fst (snd (snd (writeblocks N buf (s\<lparr>csw := c\<rparr>) e))))
          = but_csw (fst (snd (snd (writeblocks N buf s d)))))
   \<and> (same_but_at (length (log d) + 2) d e \<longrightarrow>
        but_csw (fst (snd (inquire (s\<lparr>csw := c\<rparr>) e))) = but_csw (fst (snd (inquire s d)))
      \<and> but_csw (fst (snd (read_capacity (s\<lparr>csw := c\<rparr>) e)))
          = but_csw (fst (snd (read_capacity s d))))
   \<and> (same_failures ready_device never_ready_device
      \<and> fst (wait_for_ready 100 capacity_session ready_device) = Inr ()
      \<and> fst (wait_for_ready 100 capacity_session never_ready_device)
          = Inl RuntimeError_Out_of_tries)"
proof -
  have A: "(\<forall>j. \<exists>bs. script d j = Done bs) \<and> 15 \<le> length (cbw s)
      \<and> 0 \<le> lun s \<and> lun s < 256 \<and> 0 \<le> N \<and> N < 2 ^ 32
      \<and> int (length buf) div 512 < 2 ^ 16 \<longrightarrow>
        fst (readblocks N buf s d) = Inr () \<and> fst (writeblocks N buf s d) = Inr ()"
  proof
    assume h: "(\<forall>j. \<exists>bs. script d j = Done bs) \<and> 15 \<le> length (cbw s)
      \<and> 0 \<le> lun s \<and> lun s < 256 \<and> 0 \<le> N \<and> N < 2 ^ 32
      \<and> int (length buf) div 512 < 2 ^ 16"
    then have dn: "\<forall>j. \<exists>bs. script d j = Done bs" and c: "15 \<le> length (cbw s)"
      and l: "0 \<le> lun s" "lun s < 256" and n: "0 \<le> N" "N < 2 ^ 32"
      and k: "int (length buf) div 512 < 2 ^ 16"
      by blast+
    from readblocks_returns [OF dn c l n k]
    show "fst (readblocks N buf s d) = Inr () \<and> fst (writeblocks N buf s d) = Inr ()"
      by (rule conjI)
  qed
  have B: "(\<forall>j. \<exists>bs. script d j = Done bs) \<and> 15 \<le> length (cbw s) \<longrightarrow>
        fst (inquire s d) = Inr () \<and> fst (read_capacity s d) = Inr ()"
  proof
    assume "(\<forall>j. \<exists>bs. script d j = Done bs) \<and> 15 \<le> length (cbw s)"
    then have dn: "\<forall>j. \<exists>bs. script d j = Done bs" and c: "15 \<le> length (cbw s)"
      by blast+
    from inquire_returns [OF dn c]
    show "fst (inquire s d) = Inr () \<and> fst (read_capacity s d) = Inr ()"
      by (rule conjI)
  qed
  have C: "same_failures d e \<and> length c = length (csw s) \<longrightarrow>
        fst (readblocks N buf (s\<lparr>csw := c\<rparr>) e) = fst (readblocks N buf s d)
      \<and> log (snd (snd (snd (readblocks N buf (s\<lparr>csw := c\<rparr>) e))))
          = log (snd (snd (snd (readblocks N buf s d))))
      \<and> fst (writeblocks N buf (s\<lparr>csw := c\<rparr>) e) = fst (writeblocks N buf s d)
      \<and> log (snd (snd (snd (writeblocks N buf (s\<lparr>csw := c\<rparr>) e))))
          = log (snd (snd (snd (writeblocks N buf s d))))
      \<and> fst (inquire (s\<lparr>csw := c\<rparr>) e) = fst (inquire s d)
      \<and> log (snd (snd (inquire (s\<lparr>csw := c\<rparr>) e))) = log (snd (snd (inquire s d)))
      \<and> fst (read_capacity (s\<lparr>csw := c\<rparr>) e) = fst (read_capacity s d)
      \<and> log (snd (snd (read_capacity (s\<lparr>csw := c\<rparr>) e)))
          = log (snd (snd (read_capacity s d)))"
  proof
    assume "same_failures d e \<and> length c = length (csw s)"
    then have sf: "same_failures d e" and lc: "length c = length (csw s)" by blast+
    from readblocks_control [OF sf lc] writeblocks_control [OF sf lc]
      inquire_control [OF sf lc] read_capacity_control [OF sf lc]
    show "fst (readblocks N buf (s\<lparr>csw := c\<rparr>) e) = fst (readblocks N buf s d)
      \<and> log (snd (snd (snd (readblocks N buf (s\<lparr>csw := c\<rparr>) e))))
          = log (snd (snd (snd (readblocks N buf s d))))
      \<and> fst (writeblocks N buf (s\<lparr>csw := c\<rparr>) e) = fst (writeblocks N buf s d)
      \<and> log (snd (snd (snd (writeblocks N buf (s\<lparr>csw := c\<rparr>) e))))
          = log (snd (snd (snd (writeblocks N buf s d))))
      \<and> fst (inquire (s\<lparr>csw := c\<rparr>) e) = fst (inquire s d)
      \<and> log (snd (snd (inquire (s\<lparr>csw := c\<rparr>) e))) = log (snd (snd (inquire s d)))
      \<and> fst (read_capacity (s\<lparr>csw := c\<rparr>) e) = fst (read_capacity s d)
      \<and> log (snd (snd (read_capacity (s\<lparr>csw := c\<rparr>) e)))
          = log (snd (snd (read_capacity s d)))"
      by (intro conjI)
  qed
  have D: "same_but_at (csw_position buf d) d e \<longrightarrow>
        fst (snd (readblocks N buf (s\<lparr>csw := c\<rparr>) e)) = fst (snd (readblocks N buf s d))
      \<and> but_csw (fst (snd (snd (readblocks N buf (s\<lparr>csw := c\<rparr>) e))))
          = but_csw (fst (snd (snd (readblocks N buf s d))))
      \<and> fst (snd (writeblocks N buf (s\<lparr>csw := c\<rparr>) e)) = fst (snd (writeblocks N buf s d))
      \<and> but_csw (fst (snd (snd (writeblocks N buf (s\<lparr>csw := c\<rparr>) e))))
          = but_csw (fst (snd (snd (writeblocks N buf s d))))"
  proof
    assume sb: "same_but_at (csw_position buf d) d e"
    from readblocks_data [OF sb] writeblocks_data [OF sb]
    show "fst (snd (readblocks N buf (s\<lparr>csw := c\<rparr>) e)) = fst (snd (readblocks N buf s d))
      \<and> but_csw (fst (snd (snd (readblocks N buf (s\<lparr>csw := c\<rparr>) e))))
          = but_csw (fst (snd (snd (readblocks N buf s d))))
      \<and> fst (snd (writeblocks N buf (s\<lparr>csw := c\<rparr>) e)) = fst (snd (writeblocks N buf s d))
      \<and> but_csw (fst (snd (snd (writeblocks N buf (s\<lparr>csw := c\<rparr>) e))))
          = but_csw (fst (snd (snd (writeblocks N buf s d))))"
      by (intro conjI)
  qed
  have E: "same_but_at (length (log d) + 2) d e \<longrightarrow>
        but_csw (fst (snd (inquire (s\<lparr>csw := c\<rparr>) e))) = but_csw (fst (snd (inquire s d)))
      \<and> but_csw (fst (snd (read_capacity (s\<lparr>csw := c\<rparr>) e)))
          = but_csw (fst (snd (read_capacity s d)))"
  proof
    assume sb: "same_but_at (length (log d) + 2) d e"
    from inquire_data [OF sb] read_capacity_data [OF sb]
    show "but_csw (fst (snd (inquire (s\<lparr>csw := c\<rparr>) e))) = but_csw (fst (snd (inquire s d)))
      \<and> but_csw (fst (snd (read_capacity (s\<lparr>csw := c\<rparr>) e)))
          = but_csw (fst (snd (read_capacity s d)))"
      by (intro conjI)
  qed
  have F: "same_failures ready_device never_ready_device
      \<and> fst (wait_for_ready 100 capacity_session ready_device) = Inr ()
      \<and> fst (wait_for_ready 100 capacity_session never_ready_device)
          = Inl RuntimeError_Out_of_tries"
  proof (intro conjI)
    show "same_failures ready_device never_ready_device"
      by (simp add: same_failures_def ready_device_def never_ready_device_def)
    show "fst (wait_for_ready 100 capacity_session ready_device) = Inr ()"
      by (rule wait_for_ready_ready_device)
    show "fst (wait_for_ready 100 capacity_session never_ready_device)
          = Inl RuntimeError_Out_of_tries"
      by (rule wait_for_ready_never_ready_device)
  qed
  show ?thesis
    by (rule conjI, rule A, rule conjI, rule B, rule conjI, rule C, rule conjI, rule D,
        rule conjI, rule E, rule F)
qed

theorem csw_status_not_inspected_witness:
  "(\<forall>j. \<exists>bs. script never_ready_device j = Done bs)
   \<and> same_but_at 2 never_ready_device passing_device
   \<and> csw_status never_ready_device 2 = Some 1 \<and> csw_status passing_device 2 = Some 0
   \<and> fst (readblocks 5 (replicate 1024 0) capacity_session never_ready_device) = Inr ()
   \<and> fst (readblocks 5 (replicate 1024 0)
            (capacity_session\<lparr>csw := replicate 13 0xFF\<rparr>) passing_device) = Inr ()
   \<and> fst (writeblocks 5 (replicate 1024 0) capacity_session never_ready_device) = Inr ()
   \<and> fst (writeblocks 5 (replicate 1024 0)
            (capacity_session\<lparr>csw := replicate 13 0xFF\<rparr>) passing_device) = Inr ()
   \<and> fst (inquire capacity_session never_ready_device) = Inr ()
   \<and> fst (inquire (capacity_session\<lparr>csw := replicate 13 0xFF\<rparr>) passing_device) = Inr ()
   \<and> fst (read_capacity capacity_session never_ready_device) = Inr ()
   \<and> fst (read_capacity (capacity_session\<lparr>csw := replicate 13 0xFF\<rparr>) passing_device)
       = Inr ()
   \<and> fst (snd (readblocks 5 (replicate 1024 0)
                 (capacity_session\<lparr>csw := replicate 13 0xFF\<rparr>) passing_device))
       = fst (snd (readblocks 5 (replicate 1024 0) capacity_session never_ready_device))
   \<and> sector_count (fst (snd (read_capacity
                 (capacity_session\<lparr>csw := replicate 13 0xFF\<rparr>) passing_device)))
       = sector_count (fst (snd (read_capacity capacity_session never_ready_device)))"
proof -
  let ?d = never_ready_device and ?e = passing_device and ?s = capacity_session
  let ?b = "replicate 1024 (0::byte)" and ?c = "replicate 13 (0xFF::byte)"
  have dn: "\<forall>j. \<exists>bs. script ?d j = Done bs"
    by (simp add: never_ready_device_def)
  have sf: "same_failures ?d ?e"
    by (simp add: same_failures_def passing_device_def never_ready_device_def)
  have sb: "same_but_at 2 ?d ?e"
    by (simp add: same_but_at_def same_failures_def passing_device_def never_ready_device_def)
  have st: "csw_status ?d 2 = Some 1" "csw_status ?e 2 = Some 0"
    by (simp_all add: csw_status_def passing_device_def never_ready_device_def
        csw_status_update)
  have p: "csw_position ?b ?d = 2" "length (log ?d) + 2 = 2"
    by (simp_all add: csw_position_def never_ready_device_def)
  have sb1: "same_but_at (csw_position ?b ?d) ?d ?e"
    unfolding p(1) by (rule sb)
  have sb2: "same_but_at (length (log ?d) + 2) ?d ?e"
    unfolding p(2) by (rule sb)
  have h1: "(\<forall>j. \<exists>bs. script ?d j = Done bs) \<and> 15 \<le> length (cbw ?s)
      \<and> 0 \<le> lun ?s \<and> lun ?s < 256 \<and> (0::int) \<le> 5 \<and> (5::int) < 2 ^ 32
      \<and> int (length ?b) div 512 < 2 ^ 16"
    using dn by (simp add: capacity_session_def)
  have h2: "(\<forall>j. \<exists>bs. script ?d j = Done bs) \<and> 15 \<le> length (cbw ?s)"
    using dn by (simp add: capacity_session_def)
  have h3: "same_failures ?d ?e \<and> length ?c = length (csw ?s)"
    using sf by (simp add: capacity_session_def)
  note T = csw_status_not_inspected [where d = ?d and e = ?e and s = ?s and c = ?c
      and N = 5 and buf = ?b]
  note A = T [THEN conjunct1, THEN mp, OF h1]
  note B = T [THEN conjunct2, THEN conjunct1, THEN mp, OF h2]
  note C = T [THEN conjunct2, THEN conjunct2, THEN conjunct1, THEN mp, OF h3]
  note D = T [THEN conjunct2, THEN conjunct2, THEN conjunct2, THEN conjunct1, THEN mp,
      OF sb1]
  note E = T [THEN conjunct2, THEN conjunct2, THEN conjunct2, THEN conjunct2, THEN conjunct1,
      THEN mp, OF sb2]
  from A have a: "fst (readblocks 5 ?b ?s ?d) = Inr ()" "fst (writeblocks 5 ?b ?s ?d) = Inr ()"
    by blast+
  from B have b: "fst (inquire ?s ?d) = Inr ()" "fst (read_capacity ?s ?d) = Inr ()"
    by blast+
  from C have c:
    "fst (readblocks 5 ?b (?s\<lparr>csw := ?c\<rparr>) ?e) = fst (readblocks 5 ?b ?s ?d)"
    "fst (writeblocks 5 ?b (?s\<lparr>csw := ?c\<rparr>) ?e) = fst (writeblocks 5 ?b ?s ?d)"
    "fst (inquire (?s\<lparr>csw := ?c\<rparr>) ?e) = fst (inquire ?s ?d)"
    "fst (read_capacity (?s\<lparr>csw := ?c\<rparr>) ?e) = fst (read_capacity ?s ?d)"
    by blast+
  from D have d:
    "fst (snd (readblocks 5 ?b (?s\<lparr>csw := ?c\<rparr>) ?e)) = fst (snd (readblocks 5 ?b ?s ?d))"
    by blast
  from E have "but_csw (fst (snd (read_capacity (?s\<lparr>csw := ?c\<rparr>) ?e)))
      = but_csw (fst (snd (read_capacity ?s ?d)))"
    by blast
  from arg_cong [OF this, of sector_count]
  have e: "sector_count (fst (snd (read_capacity (?s\<lparr>csw := ?c\<rparr>) ?e)))
      = sector_count (fst (snd (read_capacity ?s ?d)))"
    by (simp add: but_csw_def)
  from dn sb st a b c d e show ?thesis by simp
qed

text \<open>
  Without the proviso on the arguments the claim fails: on a device that completes every
  transfer, a block number that does not fit its four-byte field makes \<^verbatim>\<open>readblocks\<close> and
  \<^verbatim>\<open>writeblocks\<close> raise.
\<close>

theorem csw_status_not_inspected_counterexample:
  "(\<forall>j. \<exists>bs. script ready_device j = Done bs)
   \<and> fst (readblocks 4294967296 (replicate 512 0) capacity_session ready_device)
       = Inl struct_error
   \<and> fst (writeblocks (- 1) (replicate 512 0) capacity_session ready_device)
       = Inl struct_error"
  by (simp add: readblocks_def writeblocks_def pack_into_BBIxH_def ready_device_def)

subsection \<open>The descriptor scanner\<close>

text \<open>
  C2 (amended). Let the configuration descriptor be a sequence of well-formed records.
  First part: if it has exactly one interface record of class 8 and subclass 6, the records
  between it and the next interface record hold exactly one IN endpoint record and exactly
  one OUT endpoint record, the address of the OUT endpoint is not 0, and there is exactly
  one configuration record, then the scan ends and finds that configuration's value (byte
  5), that interface's number (byte 2) and the two endpoint addresses, and construction
  goes on with them. Second part: if among the endpoint records inside Mass-Storage
  interfaces none is an IN endpoint, or none is an OUT endpoint, construction fails with
  "No MSC interface found" and the device is left as it was, no transfer issued.
\<close>

theorem scanner_contract:
  "((\<forall>r\<in>set (pre @ [iface] @ mid @ post). wf_record r)
      \<and> is_msc_interface iface \<and> (\<forall>r\<in>set pre \<union> set post. \<not> is_msc_interface r)
      \<and> (\<forall>r\<in>set mid. \<not> is_interface r) \<and> (post = [] \<or> is_interface (hd post))
      \<and> filter is_in_endpoint mid = [ein] \<and> filter is_out_endpoint mid = [eout]
      \<and> eout ! 2 \<noteq> 0
      \<and> filter is_configuration (pre @ [iface] @ mid @ post) = [cfg]
     \<longrightarrow> (\<exists>st. scan_loop (concat (pre @ [iface] @ mid @ post)) 0 scan_init = Some (Inr st)
            \<and> config_value st = cfg ! 5 \<and> msc_interface st = Some (iface ! 2)
            \<and> scan_in_ep st = ein ! 2 \<and> scan_out_ep st = eout ! 2
            \<and> construct (concat (pre @ [iface] @ mid @ post)) lun0 d
                = Some (init_session st lun0 d)))
   \<and> ((\<forall>r\<in>set recs. wf_record r)
      \<and> ((\<forall>a\<in>set (msc_endpoints False recs). a AND 0x80 = 0)
         \<or> (\<forall>a\<in>set (msc_endpoints False recs). a AND 0x80 \<noteq> 0))
     \<longrightarrow> construct (concat recs) lun0 d = Some (Inl ValueError_No_MSC_interface_found, d))"
proof (intro conjI impI)
  let ?recs = "pre @ [iface] @ mid @ post"
  assume a: "(\<forall>r\<in>set ?recs. wf_record r)
      \<and> is_msc_interface iface \<and> (\<forall>r\<in>set pre \<union> set post. \<not> is_msc_interface r)
      \<and> (\<forall>r\<in>set mid. \<not> is_interface r) \<and> (post = [] \<or> is_interface (hd post))
      \<and> filter is_in_endpoint mid = [ein] \<and> filter is_out_endpoint mid = [eout]
      \<and> eout ! 2 \<noteq> 0
      \<and> filter is_configuration ?recs = [cfg]"
  then have wf: "\<forall>r\<in>set ?recs. wf_record r" and msc: "is_msc_interface iface"
    and others: "\<forall>r\<in>set pre \<union> set post. \<not> is_msc_interface r"
    and mid: "\<forall>r\<in>set mid. \<not> is_interface r"
    and post: "post = [] \<or> is_interface (hd post)"
    and ein: "filter is_in_endpoint mid = [ein]"
    and eout: "filter is_out_endpoint mid = [eout]"
    and nz: "eout ! 2 \<noteq> 0"
    and cfg: "filter is_configuration ?recs = [cfg]"
    by blast+
  note s = spec_scan_one_msc_interface [OF msc others mid post ein eout cfg]
  from ein have "ein \<in> set (filter is_in_endpoint mid)" by simp
  then have "is_in_endpoint ein" by simp
  then have nzi: "ein ! 2 \<noteq> 0" by (rule in_endpoint_nonzero)
  from scan_loop_spec_scan [OF wf]
  have sl: "scan_loop (concat ?recs) 0 scan_init = Some (Inr (spec_scan ?recs))" .
  from sl s nz nzi
  have "construct (concat ?recs) lun0 d = Some (init_session (spec_scan ?recs) lun0 d)"
    by (simp add: construct_def)
  with sl s
  show "\<exists>st. scan_loop (concat ?recs) 0 scan_init = Some (Inr st)
            \<and> config_value st = cfg ! 5 \<and> msc_interface st = Some (iface ! 2)
            \<and> scan_in_ep st = ein ! 2 \<and> scan_out_ep st = eout ! 2
            \<and> construct (concat ?recs) lun0 d = Some (init_session st lun0 d)"
    by blast
next
  assume b: "(\<forall>r\<in>set recs. wf_record r)
      \<and> ((\<forall>a\<in>set (msc_endpoints False recs). a AND 0x80 = 0)
         \<or> (\<forall>a\<in>set (msc_endpoints False recs). a AND 0x80 \<noteq> 0))"
  then have wf: "\<forall>r\<in>set recs. wf_record r" by blast
  from b have "scan_in_ep (spec_scan recs) = 0 \<or> scan_out_ep (spec_scan recs) = 0"
    by (intro spec_scan_missing_endpoint) blast
  with scan_loop_spec_scan [OF wf]
  show "construct (concat recs) lun0 d = Some (Inl ValueError_No_MSC_interface_found, d)"
    by (simp add: construct_def)
qed

text \<open>
  The claim as stated fails for an OUT endpoint record whose address is 0, which has its
  high bit clear: 0 is also the value that stands for "no endpoint found", so construction
  fails although both endpoint records are there.
\<close>

theorem scanner_contract_counterexample:
  "construct zero_out_descriptor 0 ready_device
     = Some (Inl ValueError_No_MSC_interface_found, ready_device)"
  by (simp add: construct_def scan_loop.simps zero_out_descriptor_def scan_init_def
      scan_record_def getitem_def DESC_CONFIGURATION_def DESC_INTERFACE_def DESC_ENDPOINT_def
      DIR_IN_def)

theorem scanner_contract_witness:
  "thumb_drive_descriptor
     = concat ([thumb_configuration] @ [thumb_interface]
               @ [thumb_in_endpoint, thumb_out_endpoint] @ [])
   \<and> (\<exists>st. scan_loop thumb_drive_descriptor 0 scan_init = Some (Inr st)
          \<and> config_value st = 1 \<and> msc_interface st = Some 0
          \<and> scan_in_ep st = 0x81 \<and> scan_out_ep st = 0x02
          \<and> construct thumb_drive_descriptor 0 ready_device
              = Some (init_session st 0 ready_device))
   \<and> construct (concat [thumb_configuration, thumb_interface, thumb_in_endpoint]) 0
        ready_device
       = Some (Inl ValueError_No_MSC_interface_found, ready_device)"
proof -
  note k = thumb_kinds
  have wf: "\<forall>r\<in>set ([thumb_configuration] @ [thumb_interface]
               @ [thumb_in_endpoint, thumb_out_endpoint] @ []). wf_record r"
    by (simp add: thumb_records)
  have others: "\<forall>r\<in>set [thumb_configuration] \<union> set []. \<not> is_msc_interface r"
    by (simp add: k)
  have mid: "\<forall>r\<in>set [thumb_in_endpoint, thumb_out_endpoint]. \<not> is_interface r"
    by (simp add: k)
  have ein: "filter is_in_endpoint [thumb_in_endpoint, thumb_out_endpoint] = [thumb_in_endpoint]"
    by (simp add: k)
  have eout: "filter is_out_endpoint [thumb_in_endpoint, thumb_out_endpoint]
      = [thumb_out_endpoint]"
    by (simp add: k)
  have nz: "thumb_out_endpoint ! 2 \<noteq> 0" by (simp add: thumb_out_endpoint_def)
  have cfg: "filter is_configuration ([thumb_configuration] @ [thumb_interface]
               @ [thumb_in_endpoint, thumb_out_endpoint] @ []) = [thumb_configuration]"
    by (simp add: k)
  have wf2: "\<forall>r\<in>set [thumb_configuration, thumb_interface, thumb_in_endpoint]. wf_record r"
    by (simp add: thumb_records)
  have me: "msc_endpoints False [thumb_configuration, thumb_interface, thumb_in_endpoint]
      = [thumb_in_endpoint ! 2]"
    by (simp add: k)
  have noout: "(\<forall>a\<in>set (msc_endpoints False
                   [thumb_configuration, thumb_interface, thumb_in_endpoint]). a AND 0x80 = 0)
         \<or> (\<forall>a\<in>set (msc_endpoints False
                   [thumb_configuration, thumb_interface, thumb_in_endpoint]). a AND 0x80 \<noteq> 0)"
    unfolding me by (simp add: thumb_in_endpoint_def)
  note T = scanner_contract [where pre = "[thumb_configuration]" and iface = thumb_interface
      and mid = "[thumb_in_endpoint, thumb_out_endpoint]" and post = "[]"
      and ein = thumb_in_endpoint and eout = thumb_out_endpoint and cfg = thumb_configuration
      and recs = "[thumb_configuration, thumb_interface, thumb_in_endpoint]"
      and ?lun0.0 = 0 and d = ready_device]
  from T [THEN conjunct1] wf k(9) others mid ein eout nz cfg
  have 1: "\<exists>st. scan_loop thumb_drive_descriptor 0 scan_init = Some (Inr st)
          \<and> config_value st = thumb_configuration ! 5
          \<and> msc_interface st = Some (thumb_interface ! 2)
          \<and> scan_in_ep st = thumb_in_endpoint ! 2 \<and> scan_out_ep st = thumb_out_endpoint ! 2
          \<and> construct thumb_drive_descriptor 0 ready_device
              = Some (init_session st 0 ready_device)"
    unfolding thumb_drive_records by blast
  from T [THEN conjunct2] wf2 noout
  have 2: "construct (concat [thumb_configuration, thumb_interface, thumb_in_endpoint]) 0
        ready_device
       = Some (Inl ValueError_No_MSC_interface_found, ready_device)"
    by blast
  have v: "thumb_configuration ! 5 = 1" "thumb_interface ! 2 = 0"
    "thumb_in_endpoint ! 2 = 0x81" "thumb_out_endpoint ! 2 = 0x02"
    by (simp_all add: thumb_configuration_def thumb_interface_def thumb_in_endpoint_def
        thumb_out_endpoint_def)
  from 1 2 thumb_drive_records show ?thesis unfolding v by blast
qed

text \<open>
  Why the records must be well formed: on raw bytes the scan is not total. A record with
  length byte 0 keeps the loop where it is for ever, and a record cut short makes an index
  run past the end, which is an \<^verbatim>\<open>IndexError\<close> and not "No MSC interface found".
\<close>

lemma scan_zero_length_never_ends: "scan_loop [0, 0] 0 st = None"
proof (cases "scan_loop [0, 0] 0 st")
  case None
  then show ?thesis .
next
  case (Some y)
  have "\<not> (cd = [0, 0] \<and> i = 0)" if "scan_loop cd i st = Some y" for cd i st y
    using that
  proof (rule scan_loop.raw_induct
      [where P = "\<lambda>cd i st y. \<not> (cd = [0, 0] \<and> i = 0)", rotated])
    fix loop :: "bytes \<Rightarrow> nat \<Rightarrow> scan_state \<Rightarrow> (error + scan_state) option"
    fix cd i st y
    assume IH: "\<And>i st b y. loop i st b = Some y \<Longrightarrow> \<not> (i = [0, 0] \<and> st = 0)"
      and eq: "(if i < length cd
        then case scan_record cd i st of Inl e \<Rightarrow> Some (Inl e)
             | Inr st' \<Rightarrow> loop cd (i + unat (cd ! i)) st'
        else Some (Inr st)) = Some y"
    show "\<not> (cd = [0, 0] \<and> i = 0)"
    proof
      assume z: "cd = [0, 0] \<and> i = 0"
      then have "scan_record cd i st = Inr st"
        by (simp add: scan_record_def getitem_def DESC_CONFIGURATION_def DESC_INTERFACE_def
            DESC_ENDPOINT_def)
      with eq z have "loop [0, 0] 0 st = Some y" by simp
      from IH [OF this] show False by simp
    qed
  qed
  with Some show ?thesis by blast
qed

lemma scan_truncated_record_raises:
  "construct [9, 4, 0, 0, 2, 8, 6, 0x50, 0, 7] 0 ready_device = Some (Inl IndexError, ready_device)"
  by (simp add: construct_def scan_loop.simps scan_init_def scan_record_def getitem_def
      DESC_CONFIGURATION_def DESC_INTERFACE_def DESC_ENDPOINT_def DIR_IN_def)

end
